theory Spec2Isabelle
  imports Main "HOL-Library.Word"
begin

unbundle bit_operations_syntax

section \<open>Bytes, C strings and buffers\<close>

text \<open>
  A C \<^verbatim>\<open>char\<close> is a byte and is modelled by \<^typ>\<open>char\<close>; a \<^verbatim>\<open>char\<close> array is a
  \<^typ>\<open>string\<close> whose length is the array's size. A write \<^verbatim>\<open>a[i] = b\<close> is
  \<open>a[i := b]\<close>. The C string held by an array is the bytes before its first NUL.
\<close>

abbreviation NUL :: char where
  "NUL \<equiv> CHR 0x00"

abbreviation BSL :: char where
  "BSL \<equiv> CHR 0x5C"

abbreviation DQ :: char where
  "DQ \<equiv> CHR 0x22"

definition cstr :: "string \<Rightarrow> string" where
  "cstr buf = takeWhile (\<lambda>c. c \<noteq> NUL) buf"

definition strlen :: "string \<Rightarrow> nat" where
  "strlen buf = length (cstr buf)"

definition uchar :: "char \<Rightarrow> 8 word" where
  "uchar c = of_char c"

definition CHROMIUM_THEME_MAX :: nat where
  "CHROMIUM_THEME_MAX = 12"

definition STRING_MAX :: nat where
  "STRING_MAX = 256"

definition MSG_MAX :: nat where
  "MSG_MAX = 512"

definition INOTIFY_BUF_LEN :: nat where
  "INOTIFY_BUF_LEN = 4096"

text \<open>The values of \<^verbatim>\<open><errno.h>\<close> on Linux that the program names.\<close>

definition EINTR :: int where
  "EINTR = 4"

definition EIO :: int where
  "EIO = 5"

definition EINVAL :: int where
  "EINVAL = 22"

definition ERANGE :: int where
  "ERANGE = 34"

section \<open>json\_escape\<close>

text \<open>
  \<^verbatim>\<open>static const char hex[] = "0123456789abcdef";\<close>
\<close>

definition hex :: string where
  "hex = ''0123456789abcdef''"

text \<open>\<^verbatim>\<open>dst[di++] = b;\<close> on the pair of the destination array and its index.\<close>

fun poke :: "string \<times> nat \<Rightarrow> char \<Rightarrow> string \<times> nat" where
  "poke (dst, di) b = (dst[di := b], di + 1)"

text \<open>
  The bytes that the \<^verbatim>\<open>switch (c)\<close> of \<^verbatim>\<open>json_escape\<close> stores for the byte \<open>c\<close>, in the
  order of its \<^verbatim>\<open>case\<close> labels; \<^verbatim>\<open>c\<close> is an \<^verbatim>\<open>unsigned char\<close>, so \<^verbatim>\<open>c < 0x20\<close>,
  \<^verbatim>\<open>c >> 4\<close> and \<^verbatim>\<open>c & 0xF\<close> are taken on the 8-bit value.
\<close>

definition json_escape_switch :: "char \<Rightarrow> string" where
  "json_escape_switch c =
     (if c = DQ then [BSL, DQ]
      else if c = BSL then [BSL, BSL]
      else if c = CHR 0x08 then [BSL, CHR ''b'']
      else if c = CHR 0x0C then [BSL, CHR ''f'']
      else if c = CHR 0x0A then [BSL, CHR ''n'']
      else if c = CHR 0x0D then [BSL, CHR ''r'']
      else if c = CHR 0x09 then [BSL, CHR ''t'']
      else if uchar c < 0x20 then
        [BSL, CHR ''u'', CHR ''0'', CHR ''0'',
         hex ! unat (drop_bit 4 (uchar c) AND 0xF),
         hex ! unat (uchar c AND 0xF)]
      else [c])"

text \<open>
  The \<^verbatim>\<open>while (si < src_len)\<close> loop and the code after it. The first argument is the part
  of \<open>src\<close> from index \<open>si\<close> on; the result is the returned \<^verbatim>\<open>ssize_t\<close> and the
  destination array as the call leaves it. \<open>dst_size\<close> is the length of \<open>dst\<close>.
\<close>

fun json_escape_loop :: "string \<Rightarrow> string \<Rightarrow> nat \<Rightarrow> int \<times> string" where
  "json_escape_loop [] dst di =
     (if di \<ge> length dst then (- 1, dst) else (int di, dst[di := NUL]))"
| "json_escape_loop (c # cs) dst di =
     (if di + 6 \<ge> length dst then (- 1, dst)
      else case foldl poke (dst, di) (json_escape_switch c) of
             (dst', di') \<Rightarrow> json_escape_loop cs dst' di')"

text \<open>
  \<^verbatim>\<open>json_escape(src, src_len, dst, dst_size)\<close>, for the \<open>src_len\<close> bytes \<open>src\<close> and an
  array \<open>dst\<close> of \<open>dst_size\<close> bytes. Both call sites pass arrays, so the \<^verbatim>\<open>NULL\<close> tests of
  the guard are false and \<^verbatim>\<open>dst_size == 0\<close> remains.
\<close>

definition json_escape :: "string \<Rightarrow> string \<Rightarrow> int \<times> string" where
  "json_escape src dst =
     (if length dst = 0 then (- 1, dst) else json_escape_loop src dst 0)"

subsection \<open>The escaping table and the decoder of the specification\<close>

text \<open>
  The table of the specification: the seven two-character escapes, \<^verbatim>\<open>\u00XX\<close> with
  lowercase hexadecimal digits for the other bytes below \<open>0x20\<close>, and every other byte
  as it is.
\<close>

definition lower_hex_digit :: "nat \<Rightarrow> char" where
  "lower_hex_digit n =
     (if n < 10 then char_of (of_char (CHR ''0'') + n)
      else char_of (of_char (CHR ''a'') + (n - 10)))"

definition json_escape_table :: "char \<Rightarrow> string" where
  "json_escape_table c =
     (if c = DQ then [BSL, DQ]
      else if c = BSL then [BSL, BSL]
      else if c = CHR 0x08 then [BSL, CHR ''b'']
      else if c = CHR 0x0C then [BSL, CHR ''f'']
      else if c = CHR 0x0A then [BSL, CHR ''n'']
      else if c = CHR 0x0D then [BSL, CHR ''r'']
      else if c = CHR 0x09 then [BSL, CHR ''t'']
      else if (of_char c :: nat) < 0x20 then
        [BSL, CHR ''u'', CHR ''0'', CHR ''0'',
         lower_hex_digit (of_char c div 16), lower_hex_digit (of_char c mod 16)]
      else [c])"

text \<open>
  Decoding the escapes of a JSON string body, on bytes. A hexadecimal digit of either
  case has a value; \<^verbatim>\<open>\uXXXX\<close> stands for the UTF-8 bytes of its code point (one byte
  below \<open>0x80\<close>). The decoder refuses what a JSON string body may not hold: a raw quote, a
  raw byte below \<open>0x20\<close>, a backslash that starts no escape, and a surrogate.
\<close>

definition hex_value :: "char \<Rightarrow> nat option" where
  "hex_value c =
     (let n = (of_char c :: nat) in
      if 48 \<le> n \<and> n \<le> 57 then Some (n - 48)
      else if 97 \<le> n \<and> n \<le> 102 then Some (n - 87)
      else if 65 \<le> n \<and> n \<le> 70 then Some (n - 55)
      else None)"

definition utf8_encode :: "nat \<Rightarrow> string" where
  "utf8_encode n =
     (if n < 0x80 then [char_of n]
      else if n < 0x800 then [char_of (0xC0 + n div 64), char_of (0x80 + n mod 64)]
      else [char_of (0xE0 + n div 4096), char_of (0x80 + n div 64 mod 64),
            char_of (0x80 + n mod 64)])"

fun json_unescape :: "string \<Rightarrow> string option" where
  "json_unescape [] = Some []"
| "json_unescape (c # cs) =
     (if c = BSL then
        (case cs of
           [] \<Rightarrow> None
         | e # r \<Rightarrow>
             if e = CHR ''u'' then
               (case r of
                  h1 # h2 # h3 # h4 # r' \<Rightarrow>
                    (case (hex_value h1, hex_value h2, hex_value h3, hex_value h4) of
                       (Some a, Some b, Some c', Some d) \<Rightarrow>
                         (let n = ((a * 16 + b) * 16 + c') * 16 + d in
                          if 0xD800 \<le> n \<and> n < 0xE000 then None
                          else map_option (\<lambda>t. utf8_encode n @ t) (json_unescape r'))
                     | _ \<Rightarrow> None)
                | _ \<Rightarrow> None)
             else
               (case (if e = DQ then Some DQ
                      else if e = BSL then Some BSL
                      else if e = CHR ''/'' then Some (CHR ''/'')
                      else if e = CHR ''b'' then Some (CHR 0x08)
                      else if e = CHR ''f'' then Some (CHR 0x0C)
                      else if e = CHR ''n'' then Some (CHR 0x0A)
                      else if e = CHR ''r'' then Some (CHR 0x0D)
                      else if e = CHR ''t'' then Some (CHR 0x09)
                      else None) of
                  None \<Rightarrow> None
                | Some x \<Rightarrow> map_option (\<lambda>t. x # t) (json_unescape r)))
      else if c = DQ \<or> (of_char c :: nat) < 0x20 then None
      else map_option (\<lambda>t. c # t) (json_unescape cs))"

text \<open>
  The room test of the loop, read off the source: before each byte \<open>di + 6 < dst_size\<close>,
  and \<open>di < dst_size\<close> at the end.
\<close>

fun fits :: "string \<Rightarrow> nat \<Rightarrow> nat \<Rightarrow> bool" where
  "fits [] n di = (di < n)"
| "fits (c # cs) n di = (di + 6 < n \<and> fits cs n (di + length (json_escape_switch c)))"

definition escaped :: "string \<Rightarrow> string" where
  "escaped src = concat (map json_escape_switch src)"

definition escape_ok :: "string \<Rightarrow> nat \<Rightarrow> bool" where
  "escape_ok src n = (n \<noteq> 0 \<and> fits src n 0)"

section \<open>get\_chromium\_theme\<close>

text \<open>
  What the theme file is when \<^verbatim>\<open>get_chromium_theme\<close> opens it: \<^verbatim>\<open>fopen\<close> fails and sets
  \<^verbatim>\<open>errno\<close>; or \<^verbatim>\<open>fopen\<close> succeeds and the read of \<^verbatim>\<open>fgets\<close> fails and sets \<^verbatim>\<open>errno\<close>; or
  the file is read and holds the given bytes. At the end of a file with no byte read,
  \<^verbatim>\<open>fgets\<close> returns \<^verbatim>\<open>NULL\<close> and leaves \<^verbatim>\<open>errno\<close> as it is.
\<close>

datatype theme_file = Open_fails int | Read_fails int | Content string

text \<open>
  \<^verbatim>\<open>fgets(s, n, stream)\<close>: the bytes taken from the stream are at most \<open>n - 1\<close> and
  end after the first newline; they are stored in \<open>s\<close> with a NUL after them. The result
  is \<open>None\<close> for the \<^verbatim>\<open>NULL\<close> of an empty stream.
\<close>

fun fgets_bytes :: "nat \<Rightarrow> string \<Rightarrow> string" where
  "fgets_bytes n [] = []"
| "fgets_bytes n (c # cs) =
     (if n = 0 then [] else if c = CHR 0x0A then [c] else c # fgets_bytes (n - 1) cs)"

definition fgets :: "string \<Rightarrow> nat \<Rightarrow> string \<Rightarrow> string option" where
  "fgets s n content =
     (if content = [] then None
      else let got = fgets_bytes (n - 1) content
           in Some (got @ NUL # drop (length got + 1) s))"

text \<open>
  \<^verbatim>\<open>(c >= '0' && c <= '9') || c == ','\<close>. Whether \<^verbatim>\<open>char\<close> is signed or not, the bytes in this
  range are those from 48 to 57.
\<close>

definition digit_or_comma :: "char \<Rightarrow> bool" where
  "digit_or_comma c =
     (((of_char (CHR ''0'') :: nat) \<le> of_char c \<and> (of_char c :: nat) \<le> of_char (CHR ''9''))
      \<or> c = CHR '','')"

text \<open>
  The \<^verbatim>\<open>for (int i = 0; i < STRING_MAX; i++)\<close> loop: the first argument is \<open>line\<close> from
  index \<open>i\<close> up to \<open>STRING_MAX\<close>, then the destination array and \<open>j\<close>.
\<close>

fun theme_loop :: "string \<Rightarrow> string \<Rightarrow> nat \<Rightarrow> string \<times> nat" where
  "theme_loop [] chromium_theme j = (chromium_theme, j)"
| "theme_loop (c # cs) chromium_theme j =
     (if c = NUL then (chromium_theme, j)
      else if digit_or_comma c then
        (if j \<ge> CHROMIUM_THEME_MAX - 1 then (chromium_theme, j)
         else theme_loop cs (chromium_theme[j := c]) (j + 1))
      else theme_loop cs chromium_theme j)"

text \<open>
  \<^verbatim>\<open>get_chromium_theme(chromium_theme, chromium_theme_path)\<close>. Arguments: the file as the
  call finds it, the bytes that the local array \<open>line\<close> holds before \<^verbatim>\<open>fgets\<close> (it is not
  initialised), the destination array and \<^verbatim>\<open>errno\<close>. Result: the returned \<^verbatim>\<open>int\<close>, the
  destination array and \<^verbatim>\<open>errno\<close> after the call. \<^verbatim>\<open>fclose\<close> of a stream opened for
  reading is taken to succeed.
\<close>

definition get_chromium_theme ::
  "theme_file \<Rightarrow> string \<Rightarrow> string \<Rightarrow> int \<Rightarrow> int \<times> string \<times> int" where
  "get_chromium_theme file line0 chromium_theme errno0 =
     (case file of
        Open_fails e \<Rightarrow> (e, chromium_theme, e)
      | Read_fails e \<Rightarrow> (e, chromium_theme, e)
      | Content bytes \<Rightarrow>
          (case fgets line0 STRING_MAX bytes of
             None \<Rightarrow> (errno0, chromium_theme, errno0)
           | Some line \<Rightarrow>
               (case theme_loop (take STRING_MAX line) chromium_theme 0 of
                  (chromium_theme', j) \<Rightarrow> (0, chromium_theme'[j := NUL], errno0))))"

section \<open>send\_msg\<close>

text \<open>
  \<^verbatim>\<open>vsnprintf(s, maxlen, format, ap)\<close>, with \<open>text\<close> the bytes the format expands to: it
  returns their number and stores as many of them as fit before a NUL. A C string
  argument of \<^verbatim>\<open>%s\<close> expands to its \<^const>\<open>cstr\<close>.
\<close>

definition vsnprintf :: "string \<Rightarrow> nat \<Rightarrow> string \<Rightarrow> int \<times> string" where
  "vsnprintf s maxlen text =
     (int (length text),
      if maxlen = 0 then s
      else take (maxlen - 1) text @ NUL # drop (min (length text) (maxlen - 1) + 1) s)"

text \<open>
  \<^verbatim>\<open>snprintf_werr(s, maxlen, format, ...)\<close>; \<open>s\<close> and \<open>format\<close> are never \<^verbatim>\<open>NULL\<close> at a call.
\<close>

definition snprintf_werr :: "string \<Rightarrow> nat \<Rightarrow> string \<Rightarrow> int \<times> string" where
  "snprintf_werr s maxlen text =
     (if maxlen = 0 then (EINVAL, s)
      else case vsnprintf s maxlen text of
             (needed, s') \<Rightarrow>
               if needed < 0 then (EIO, s')
               else if nat needed \<ge> maxlen then (ERANGE, s')
               else (0, s'))"

text \<open>
  The program's variables with static storage, \<^verbatim>\<open>errno\<close>, and what it has written to
  standard output and to standard error. \<open>sends\<close> and \<open>opens\<close> count the calls of
  \<^verbatim>\<open>send_msg\<close> and of \<^verbatim>\<open>get_chromium_theme\<close>: they select the replies of the world below.
\<close>

record state =
  errno :: int
  notify_fd :: int
  notify_closed :: bool
  msg :: string
  esc_err :: string
  esc_syserr :: string
  chromium_theme :: string
  stdout :: string
  stderr :: string
  sends :: nat
  opens :: nat

datatype 'a syscall = Fails int | Returns 'a

text \<open>
  The reply of a stream to one \<^verbatim>\<open>fwrite\<close>: the number of bytes it accepts, and the value
  \<^verbatim>\<open>errno\<close> gets when these are fewer than the bytes offered.
\<close>

type_synonym reply = "nat \<times> int"

text \<open>
  Everything the program gets from outside: the texts of \<^verbatim>\<open>strerror\<close>; for the \<open>k\<close>-th
  call of \<^verbatim>\<open>send_msg\<close> the replies of standard output to its two \<^verbatim>\<open>fwrite\<close>s and the
  error, if any, of its \<^verbatim>\<open>fflush\<close>; the theme file as the \<open>k\<close>-th call of
  \<^verbatim>\<open>get_chromium_theme\<close> finds it; the bytes that the arrays \<open>line\<close> (of
  \<open>STRING_MAX\<close> bytes) and \<open>buf\<close> (of \<open>INOTIFY_BUF_LEN\<close> bytes), which are not
  initialised, hold at first; and the results of \<^verbatim>\<open>get_current_path\<close>,
  \<^verbatim>\<open>inotify_init\<close>, \<^verbatim>\<open>inotify_add_watch\<close> and \<^verbatim>\<open>get_chromium_theme_path\<close>.
\<close>

record world =
  strerror :: "int \<Rightarrow> string"
  stdout_replies :: "nat \<Rightarrow> reply \<times> reply \<times> int option"
  theme_files :: "nat \<Rightarrow> theme_file"
  line_garbage :: string
  buf_garbage :: string
  current_path_result :: int
  inotify_init_result :: "int syscall"
  inotify_add_watch_result :: "int syscall"
  chromium_theme_path_result :: int

text \<open>
  \<^verbatim>\<open>fwrite(ptr, size, nmemb, stdout)\<close> for the \<open>size * nmemb\<close> bytes at \<open>ptr\<close>: the stream
  takes the bytes it accepts, and the call returns the number of whole items written.
\<close>

definition fwrite :: "string \<Rightarrow> nat \<Rightarrow> reply \<Rightarrow> state \<Rightarrow> nat \<times> state" where
  "fwrite bytes item r s =
     (let n = min (fst r) (length bytes)
      in (n div item,
          s\<lparr>stdout := stdout s @ take n bytes,
            errno := (if n < length bytes then snd r else errno s)\<rparr>))"

text \<open>The four bytes of the \<^verbatim>\<open>uint32_t\<close> that \<^verbatim>\<open>htole32\<close> returns, in memory order.\<close>

definition htole32 :: "32 word \<Rightarrow> string" where
  "htole32 w =
     [char_of (unat w), char_of (unat w div 256), char_of (unat w div 65536),
      char_of (unat w div 16777216)]"

text \<open>
  \<^verbatim>\<open>r = json_escape(src, strlen(src), dst, sizeof(dst)); if (r < 0) { snprintf(dst,
  sizeof(dst), "error too long"); dst[sizeof(dst) - 1] = '\0'; }\<close>
\<close>

definition escape_or_fallback :: "string \<Rightarrow> string \<Rightarrow> string" where
  "escape_or_fallback src dst =
     (case json_escape (cstr src) dst of
        (r, dst') \<Rightarrow>
          if r < 0 then
            (snd (vsnprintf dst' (length dst') ''error too long''))[length dst' - 1 := NUL]
          else dst')"

text \<open>The expansion of the format chosen by the four-way test on \<open>rgb\<close> and \<open>err\<close>.\<close>

definition msg_text :: "string option \<Rightarrow> string option \<Rightarrow> string \<Rightarrow> string \<Rightarrow> string" where
  \<open>msg_text rgb err e1 e2 =
     (case (rgb, err) of
        (Some r, Some _) \<Rightarrow>
          ''{"rgb":['' @ cstr r @ ''],"error":"'' @ cstr e1 @ '': '' @ cstr e2 @ ''"}''
      | (Some r, None) \<Rightarrow> ''{"rgb":['' @ cstr r @ ''],"error":null}''
      | (None, Some _) \<Rightarrow> ''{"rgb":null,"error":"'' @ cstr e1 @ '': '' @ cstr e2 @ ''"}''
      | (None, None) \<Rightarrow> ''{"rgb":null,"error":null}'')\<close>

definition could_not_send :: "world \<Rightarrow> int \<Rightarrow> state \<Rightarrow> state" where
  "could_not_send W e s =
     s\<lparr>stderr := stderr s @ ''could not send message: '' @ cstr (strerror W e) @ [CHR 0x0A]\<rparr>"

text \<open>
  The first part of \<^verbatim>\<open>send_msg(rgb, err, en)\<close>, up to the assignment of \<open>ret\<close>: the arrays
  are reset, the context and the text of \<^verbatim>\<open>strerror(en)\<close> are escaped, and the message is
  formatted into \<open>msg\<close>. A \<^verbatim>\<open>NULL\<close> argument is \<open>None\<close>, another one the array it points to.
  The result is \<open>ret\<close> and the state.
\<close>

definition format_msg ::
  "world \<Rightarrow> string option \<Rightarrow> string option \<Rightarrow> int \<Rightarrow> state \<Rightarrow> int \<times> state" where
  "format_msg W rgb err en s0 =
     (let s1 = s0\<lparr>esc_err := (esc_err s0)[0 := NUL], esc_syserr := (esc_syserr s0)[0 := NUL],
                 msg := (msg s0)[0 := NUL], sends := sends s0 + 1\<rparr>;
          syserr = (if err \<noteq> None then Some (strerror W en) else None);
          s2 = (case err of
                  None \<Rightarrow> s1
                | Some e \<Rightarrow> s1\<lparr>esc_err := escape_or_fallback e (esc_err s1)\<rparr>);
          s3 = (case syserr of
                  None \<Rightarrow> s2
                | Some e \<Rightarrow> s2\<lparr>esc_syserr := escape_or_fallback e (esc_syserr s2)\<rparr>);
          (ret, m) = snprintf_werr (msg s3) MSG_MAX
                       (msg_text rgb err (esc_err s3) (esc_syserr s3))
      in (ret, s3\<lparr>msg := m\<rparr>))"

text \<open>
  \<^verbatim>\<open>send_msg\<close>: after the formatting, the test of \<open>ret\<close>, the two \<^verbatim>\<open>fwrite\<close>s and the
  \<^verbatim>\<open>fflush\<close>, whose result the program does not look at. The replies of standard output
  are those for this call, the one numbered \<open>sends s0\<close>.
\<close>

definition send_msg :: "world \<Rightarrow> string option \<Rightarrow> string option \<Rightarrow> int \<Rightarrow> state \<Rightarrow> state" where
  "send_msg W rgb err en s0 =
     (case format_msg W rgb err en s0 of
        (ret, s4) \<Rightarrow>
          if ret \<noteq> 0 then could_not_send W ret s4
          else
            let len = (word_of_nat (strlen (msg s4)) :: 32 word);
                len_le = htole32 len;
                (r1, r2, r3) = stdout_replies W (sends s0);
                (n1, s5) = fwrite len_le 4 r1 s4
            in if n1 \<noteq> 1 then could_not_send W (errno s5) s5
               else
                 let (n2, s6) = fwrite (take (unat len) (msg s5)) 1 r2 s5
                 in if n2 \<noteq> unat len then could_not_send W (errno s6) s6
                    else (case r3 of None \<Rightarrow> s6 | Some e \<Rightarrow> s6\<lparr>errno := e\<rparr>))"

section \<open>main\<close>

text \<open>
  How far a run has come: the process is running in a state (it waits in \<^verbatim>\<open>read\<close>, or a
  loop is done), it has called \<^verbatim>\<open>exit\<close> with a status, or it has read past the end of
  \<open>buf\<close>, where C defines no behaviour.
\<close>

datatype run = Running state | Exited int state | Undefined state

definition clean_exit :: "int \<Rightarrow> state \<Rightarrow> run" where
  "clean_exit err s = Exited err (if notify_fd s \<ge> 0 then s\<lparr>notify_closed := True\<rparr> else s)"

abbreviation SQ :: char where
  "SQ \<equiv> CHR 0x27"

definition call_get_chromium_theme :: "world \<Rightarrow> state \<Rightarrow> int \<times> state" where
  "call_get_chromium_theme W s =
     (case get_chromium_theme (theme_files W (opens s)) (line_garbage W) (chromium_theme s)
             (errno s) of
        (result, ct, e) \<Rightarrow>
          (result, s\<lparr>chromium_theme := ct, errno := e, opens := opens s + 1\<rparr>))"

text \<open>
  The statements that \<^verbatim>\<open>main\<close> has twice, before its loop and for a matching event:
  \<^verbatim>\<open>result = get_chromium_theme(...); if (result != 0) { send_msg(NULL, "could not read
  chromium.theme to string", result); clean_exit(result); } send_msg(chromium_theme, NULL,
  0);\<close>
\<close>

definition report_theme :: "world \<Rightarrow> state \<Rightarrow> run" where
  "report_theme W s =
     (case call_get_chromium_theme W s of
        (result, s1) \<Rightarrow>
          if result \<noteq> 0 then
            clean_exit result
              (send_msg W None (Some ''could not read chromium.theme to string'') result s1)
          else Running (send_msg W (Some (chromium_theme s1)) None 0 s1))"

definition IN_MOVED_TO :: "32 word" where
  "IN_MOVED_TO = 0x00000080"

definition IN_CREATE :: "32 word" where
  "IN_CREATE = 0x00000100"

definition THEME_DIR :: string where
  "THEME_DIR = ''theme''"

text \<open>
  A \<^verbatim>\<open>uint32_t\<close> field of \<^verbatim>\<open>struct inotify_event\<close> at an offset of the array, on a
  little-endian machine. The fields are \<open>wd\<close> at 0, \<open>mask\<close> at 4, \<open>cookie\<close> at 8 and \<open>len\<close>
  at 12; \<open>name\<close> starts at 16, the size of the structure.
\<close>

definition le32 :: "string \<Rightarrow> nat \<Rightarrow> 32 word" where
  "le32 a i =
     word_of_nat (of_char (a ! i) + 256 * of_char (a ! (i + 1)) + 65536 * of_char (a ! (i + 2))
       + 16777216 * of_char (a ! (i + 3)))"

text \<open>
  \<^verbatim>\<open>size_t ev_size = sizeof(struct inotify_event) + ev->len;\<close> with a \<^verbatim>\<open>size_t\<close> of 64 bits.
\<close>

definition ev_size :: "string \<Rightarrow> nat \<Rightarrow> nat" where
  "ev_size buf off = (16 + unat (le32 buf (off + 12))) mod 2 ^ 64"

text \<open>
  \<^verbatim>\<open>strcmp(a, lit) == 0\<close> for the array \<open>a\<close> from the pointer to its end and a literal
  \<open>lit\<close> with no NUL in it: \<open>None\<close> when the comparison reads past the end of the array.
\<close>

fun strcmp0 :: "string \<Rightarrow> string \<Rightarrow> bool option" where
  "strcmp0 [] lit = None"
| "strcmp0 (c # cs) [] = Some (c = NUL)"
| "strcmp0 (c # cs) (l # ls) = (if c = l then strcmp0 cs ls else Some False)"

text \<open>
  \<^verbatim>\<open>for (ssize_t off = 0; off < n;) { ... }\<close> over the \<open>n\<close> bytes read into \<open>buf\<close>. The
  header of the record at \<open>off\<close> is read before any test; when it does not lie in \<open>buf\<close>
  the run is undefined.
\<close>

function events_loop :: "world \<Rightarrow> string \<Rightarrow> nat \<Rightarrow> nat \<Rightarrow> state \<Rightarrow> run" where
  "events_loop W buf n off s =
     (if off < n then
        (if length buf < off + 16 then Undefined s
         else if ev_size buf off = 0 \<or> off + ev_size buf off > n then Running s
         else if le32 buf (off + 4) AND (IN_MOVED_TO OR IN_CREATE) \<noteq> 0
                 \<and> le32 buf (off + 12) > 0 then
           (case strcmp0 (drop (off + 16) buf) THEME_DIR of
              None \<Rightarrow> Undefined s
            | Some True \<Rightarrow>
                (case report_theme W s of
                   Running s' \<Rightarrow> events_loop W buf n (off + ev_size buf off) s'
                 | r \<Rightarrow> r)
            | Some False \<Rightarrow> events_loop W buf n (off + ev_size buf off) s)
         else events_loop W buf n (off + ev_size buf off) s)
      else Running s)"
  by pat_completeness auto
termination
  by (relation "measure (\<lambda>(W, buf, n, off, s). n - off)") auto

declare events_loop.simps [simp del]

text \<open>
  What one \<^verbatim>\<open>read(notify_fd, buf, sizeof(buf))\<close> returns: \<open>-1\<close> with a value of \<^verbatim>\<open>errno\<close>, or
  the bytes it stores at the start of \<open>buf\<close>.
\<close>

datatype read_result = Read_error int | Read_bytes string

text \<open>
  The \<^verbatim>\<open>while (1)\<close> loop of \<^verbatim>\<open>main\<close> over the results of its reads, in their order. When
  they are used up the process waits in \<^verbatim>\<open>read\<close>. A read stores at most \<^verbatim>\<open>sizeof(buf)\<close>
  bytes, the length of \<open>buf\<close>, and leaves the rest of \<open>buf\<close> as it was.
\<close>

fun read_loop :: "world \<Rightarrow> read_result list \<Rightarrow> string \<Rightarrow> state \<Rightarrow> run" where
  "read_loop W [] buf s = Running s"
| "read_loop W (Read_error e # rs) buf s =
     (let s1 = s\<lparr>errno := e\<rparr>
      in if errno s1 = EINTR then read_loop W rs buf s1
         else let s2 = send_msg W None (Some ''could not read inotify instance'') (errno s1) s1
              in clean_exit (errno s2) s2)"
| "read_loop W (Read_bytes bytes # rs) buf s =
     (let n = length (take (length buf) bytes);
          buf' = take (length buf) bytes @ drop n buf
      in if n = 0 then read_loop W rs buf' s
         else (case events_loop W buf' n 0 s of
                 Running s' \<Rightarrow> read_loop W rs buf' s'
               | r \<Rightarrow> r))"

text \<open>The state at the start of \<^verbatim>\<open>main\<close>: static arrays hold zeros.\<close>

definition initial_state :: state where
  "initial_state =
     \<lparr>errno = 0, notify_fd = - 1, notify_closed = False,
      msg = replicate MSG_MAX NUL, esc_err = replicate MSG_MAX NUL,
      esc_syserr = replicate MSG_MAX NUL,
      chromium_theme = replicate CHROMIUM_THEME_MAX NUL,
      stdout = [], stderr = [], sends = 0, opens = 0\<rparr>"

text \<open>
  \<^verbatim>\<open>main\<close>, for a world and the results of the reads of the inotify descriptor. The path
  functions \<^verbatim>\<open>get_current_path\<close> and \<^verbatim>\<open>get_chromium_theme_path\<close> enter by their results.
\<close>

definition main :: "world \<Rightarrow> read_result list \<Rightarrow> run" where
  "main W reads =
     (let s0 = initial_state;
          result = current_path_result W
      in if result \<noteq> 0 then
           clean_exit result
             (send_msg W None
                (Some (''could not get path '' @ [SQ] @ ''~/.config/omarchy/current'' @ [SQ]))
                result s0)
         else
           (case inotify_init_result W of
              Fails e \<Rightarrow>
                (let s1 = s0\<lparr>notify_fd := - 1, errno := e\<rparr>;
                     s2 = send_msg W None (Some ''could not init inotify'') (errno s1) s1
                 in clean_exit (errno s2) s2)
            | Returns fd \<Rightarrow>
                (let s1 = s0\<lparr>notify_fd := fd\<rparr>
                 in case inotify_add_watch_result W of
                      Fails e \<Rightarrow>
                        (let s2 = s1\<lparr>errno := e\<rparr>;
                             s3 = send_msg W None
                                    (Some (''could not watch directory '' @ [SQ]
                                       @ ''~/.config/omarchy/current'' @ [SQ]))
                                    (errno s2) s2
                         in clean_exit (errno s3) s3)
                    | Returns wd \<Rightarrow>
                        (let result = chromium_theme_path_result W
                         in if result \<noteq> 0 then
                              clean_exit result
                                (send_msg W None
                                   (Some (''could not get path '' @ [SQ]
                                      @ ''~/.config/omarchy/current/theme/chromium.theme''
                                      @ [SQ]))
                                   result s1)
                            else
                              (case report_theme W s1 of
                                 Running s2 \<Rightarrow> read_loop W reads (buf_garbage W) s2
                               | r \<Rightarrow> r)))))"

fun state_of :: "run \<Rightarrow> state" where
  "state_of (Running s) = s"
| "state_of (Exited status s) = s"
| "state_of (Undefined s) = s"

fun exit_status :: "run \<Rightarrow> int option" where
  "exit_status (Running s) = None"
| "exit_status (Exited status s) = Some status"
| "exit_status (Undefined s) = None"

section \<open>The reader of the protocol\<close>

text \<open>
  The other end of standard output: a framed message is a length of four bytes,
  little-endian, and that many bytes of body. \<open>unframe\<close> cuts a stream into the bodies of
  its messages, and is \<open>None\<close> for a stream that ends inside a message.
\<close>

definition frame :: "string \<Rightarrow> string" where
  "frame body = htole32 (word_of_nat (length body)) @ body"

function unframe :: "string \<Rightarrow> string list option" where
  "unframe bs =
     (if bs = [] then Some []
      else if length bs < 4 then None
      else if length (drop 4 bs) < unat (le32 bs 0) then None
      else map_option (\<lambda>r. take (unat (le32 bs 0)) (drop 4 bs) # r)
             (unframe (drop (unat (le32 bs 0)) (drop 4 bs))))"
  by pat_completeness auto
termination
  by (relation "measure length") auto

declare unframe.simps [simp del]

definition strip_prefix :: "string \<Rightarrow> string \<Rightarrow> string option" where
  "strip_prefix p s = (if take (length p) s = p then Some (drop (length p) s) else None)"

definition strip_suffix :: "string \<Rightarrow> string \<Rightarrow> string option" where
  "strip_suffix q s =
     (if length q \<le> length s \<and> drop (length s - length q) s = q
      then Some (take (length s - length q) s) else None)"

definition between :: "string \<Rightarrow> string \<Rightarrow> string \<Rightarrow> string option" where
  "between p q s = (case strip_prefix p s of None \<Rightarrow> None | Some r \<Rightarrow> strip_suffix q r)"

text \<open>
  The two shapes of a message body with one field \<^verbatim>\<open>null\<close>: what stands between the
  brackets of \<open>rgb\<close>, and what stands between the quotes of \<open>error\<close>.
\<close>

definition rgb_of :: "string \<Rightarrow> string option" where
  \<open>rgb_of body = between ''{"rgb":['' ''],"error":null}'' body\<close>

definition error_of :: "string \<Rightarrow> string option" where
  \<open>error_of body = between ''{"rgb":null,"error":"'' ''"}'' body\<close>

fun split_commas :: "string \<Rightarrow> string list" where
  "split_commas [] = [[]]"
| "split_commas (c # cs) =
     (if c = CHR '','' then [] # split_commas cs
      else (case split_commas cs of [] \<Rightarrow> [[c]] | x # xs \<Rightarrow> (c # x) # xs))"

text \<open>
  A JSON number made of digits only: at least one digit, and no leading zero before
  another digit.
\<close>

definition json_digits :: "string \<Rightarrow> bool" where
  "json_digits a =
     (a \<noteq> [] \<and> list_all (\<lambda>c. digit_or_comma c \<and> c \<noteq> CHR '','') a
      \<and> (length a = 1 \<or> hd a \<noteq> CHR ''0''))"

definition three_numbers :: "string \<Rightarrow> bool" where
  "three_numbers t =
     (case split_commas t of
        [a, b, c] \<Rightarrow> json_digits a \<and> json_digits b \<and> json_digits c
      | _ \<Rightarrow> False)"

text \<open>
  The body that C1 describes: \<open>rgb\<close> an array of three numbers and \<open>error\<close> \<^verbatim>\<open>null\<close>, or
  \<open>rgb\<close> \<^verbatim>\<open>null\<close> and \<open>error\<close> a JSON string.
\<close>

definition claimed_body :: "string \<Rightarrow> bool" where
  "claimed_body body =
     (case rgb_of body of
        Some t \<Rightarrow> three_numbers t
      | None \<Rightarrow> (case error_of body of Some e \<Rightarrow> json_unescape e \<noteq> None | None \<Rightarrow> False))"

text \<open>
  The body that the program sends: between the brackets of \<open>rgb\<close> stand at most 11 digits
  and commas, whatever their grouping.
\<close>

definition emitted_body :: "string \<Rightarrow> bool" where
  "emitted_body body =
     (case rgb_of body of
        Some t \<Rightarrow> list_all digit_or_comma t \<and> length t \<le> 11
      | None \<Rightarrow> (case error_of body of Some e \<Rightarrow> json_unescape e \<noteq> None | None \<Rightarrow> False))"

text \<open>
  A theme file as the program expects it: it is opened and read (a failure has a nonzero
  \<^verbatim>\<open>errno\<close>), and the digits and commas of its first line are three numbers.
\<close>

definition expected_file :: "theme_file \<Rightarrow> bool" where
  "expected_file f =
     (case f of
        Open_fails e \<Rightarrow> e \<noteq> 0
      | Read_fails e \<Rightarrow> e \<noteq> 0
      | Content bytes \<Rightarrow>
          three_numbers
            (take 11 (filter digit_or_comma (cstr (fgets_bytes (STRING_MAX - 1) bytes)))))"

definition accepts :: "reply \<times> reply \<times> int option \<Rightarrow> bool" where
  "accepts r = (case r of (r1, r2, r3) \<Rightarrow> 4 \<le> fst r1 \<and> MSG_MAX \<le> fst r2)"

subsection \<open>Worlds for the examples\<close>

definition example_world :: world where
  "example_world =
     \<lparr>strerror = (\<lambda>e. if e = 2 then ''No such file or directory''
                      else if e = 24 then ''Too many open files''
                      else if e = 28 then ''No space left on device''
                      else ''Unknown error''),
      stdout_replies = (\<lambda>k. ((4, 0), (MSG_MAX, 0), None)),
      theme_files = (\<lambda>k. Content (''23,43,67'' @ [CHR 0x0A])),
      line_garbage = replicate STRING_MAX (CHR ''x''),
      buf_garbage = replicate INOTIFY_BUF_LEN (CHR ''y''),
      current_path_result = 0,
      inotify_init_result = Returns 3,
      inotify_add_watch_result = Returns 1,
      chromium_theme_path_result = 0\<rparr>"

text \<open>
  An inotify record with descriptor 1, the given mask (below \<open>2\<^sup>1\<^sup>6\<close>), no cookie, and the
  name padded with NUL bytes to the given length \<open>len\<close> (below 256).
\<close>

definition event :: "nat \<Rightarrow> nat \<Rightarrow> string \<Rightarrow> string" where
  "event m len name =
     map char_of [1, 0, 0, 0, m mod 256, m div 256, 0, 0, 0, 0, 0, 0, len, 0, 0, 0 :: nat]
       @ name @ replicate (len - length name) NUL"


text \<open>The arrays \<open>esc_err\<close> and \<open>esc_syserr\<close> as \<^verbatim>\<open>send_msg\<close> fills them.\<close>

definition esc_err_of :: "string option \<Rightarrow> state \<Rightarrow> string" where
  "esc_err_of err s =
     (case err of
        None \<Rightarrow> (esc_err s)[0 := NUL]
      | Some e \<Rightarrow> escape_or_fallback e ((esc_err s)[0 := NUL]))"

definition esc_syserr_of :: "world \<Rightarrow> string option \<Rightarrow> int \<Rightarrow> state \<Rightarrow> string" where
  "esc_syserr_of W err en s =
     (case err of
        None \<Rightarrow> (esc_syserr s)[0 := NUL]
      | Some e \<Rightarrow> escape_or_fallback (strerror W en) ((esc_syserr s)[0 := NUL]))"

text \<open>A string of bytes each of which \<^verbatim>\<open>json_escape\<close> copies as it is.\<close>

definition plain :: "string \<Rightarrow> bool" where
  "plain s = list_all (\<lambda>c. json_escape_switch c = [c]) s"

section \<open>What holds along a run\<close>

text \<open>
  Standard output accepts every write; and every theme file the program opens is as it
  expects.
\<close>

definition accepting :: "world \<Rightarrow> bool" where
  "accepting W = (\<forall>k. accepts (stdout_replies W k))"

definition expected_world :: "world \<Rightarrow> bool" where
  "expected_world W = (\<forall>k. expected_file (theme_files W k))"

text \<open>
  The stream written so far is a sequence of whole messages, each with a body the
  program sends; in an expected world each body is as C1 describes it.
\<close>

definition stream_ok :: "world \<Rightarrow> string \<Rightarrow> bool" where
  "stream_ok W out =
     (\<exists>bodies. unframe out = Some bodies \<and> list_all emitted_body bodies \<and>
        (expected_world W \<longrightarrow> list_all claimed_body bodies))"

definition theme_ok :: "string \<Rightarrow> bool" where
  "theme_ok ct =
     (length ct = CHROMIUM_THEME_MAX \<and> list_all digit_or_comma (cstr ct) \<and> length (cstr ct) \<le> 11)"

definition state_ok :: "world \<Rightarrow> state \<Rightarrow> bool" where
  "state_ok W s = (stream_ok W (stdout s) \<and> theme_ok (chromium_theme s))"

fun run_ok :: "world \<Rightarrow> run \<Rightarrow> bool" where
  "run_ok W (Running s) = state_ok W s"
| "run_ok W (Exited status s) = stream_ok W (stdout s)"
| "run_ok W (Undefined s) = stream_ok W (stdout s)"

text \<open>
  The world of the examples with a theme file that holds one number; and with an
  \<^verbatim>\<open>inotify_init\<close> that fails with \<^verbatim>\<open>EMFILE\<close> (24) while standard output is a file on a full
  device, so that \<^verbatim>\<open>fflush\<close> fails with \<^verbatim>\<open>ENOSPC\<close> (28).
\<close>

definition one_number_world :: world where
  "one_number_world = example_world\<lparr>theme_files := (\<lambda>k. Content (''7'' @ [CHR 0x0A]))\<rparr>"

definition full_device_world :: world where
  "full_device_world =
     example_world\<lparr>inotify_init_result := Fails 24,
                    stdout_replies := (\<lambda>k. ((4, 0), (MSG_MAX, 0), Some 28))\<rparr>"

section \<open>Properties of json\_escape\<close>

lemma length_json_escape_switch: "length (json_escape_switch c) \<le> 6"
  by (simp add: json_escape_switch_def)

subsection \<open>The bytes written by the loop\<close>

lemma foldl_poke:
  "di + length bs \<le> length dst \<Longrightarrow>
   foldl poke (dst, di) bs = (take di dst @ bs @ drop (di + length bs) dst, di + length bs)"
proof (induction bs arbitrary: dst di)
  case Nil
  then show ?case by simp
next
  case (Cons b bs)
  have "di < length dst" using Cons.prems by simp
  then have "dst[di := b] = take di dst @ b # drop (Suc di) dst"
    by (simp add: upd_conv_take_nth_drop)
  with Cons show ?case by (simp add: min_def add.commute)
qed

lemma unat_uchar: "unat (uchar c) = of_char c"
proof -
  have "uchar c = word_of_nat (of_char c)"
    by (simp add: uchar_def of_nat_of_char)
  then have "unat (uchar c) = (of_char c :: nat) mod 2 ^ 8"
    by (simp only: unat_of_nat) simp
  then show ?thesis by simp
qed

lemma hex_nth:
  assumes "k < 16"
  shows "lower_hex_digit k = hex ! k"
proof -
  have "k = 0 \<or> k = 1 \<or> k = 2 \<or> k = 3 \<or> k = 4 \<or> k = 5 \<or> k = 6 \<or> k = 7 \<or> k = 8
      \<or> k = 9 \<or> k = 10 \<or> k = 11 \<or> k = 12 \<or> k = 13 \<or> k = 14 \<or> k = 15"
    using assms by arith
  then show ?thesis
    by (auto simp: hex_def lower_hex_digit_def char_of_eq_iff)
qed

lemma hex_nth_not_NUL:
  assumes "k < 16"
  shows "hex ! k \<noteq> NUL"
proof -
  have "hex ! k \<in> set hex"
    using assms by (intro nth_mem) (simp add: hex_def)
  then show ?thesis by (auto simp: hex_def)
qed

lemma unat_low: "unat (uchar c AND 0xF) = of_char c mod 16"
proof -
  have "uchar c AND 0xF = take_bit 4 (uchar c)"
    by (simp add: take_bit_eq_mask mask_eq_exp_minus_1)
  then show ?thesis
    by (simp add: unat_uchar take_bit_eq_mod unat_mod)
qed

lemma unat_high: "unat (drop_bit 4 (uchar c) AND 0xF) = of_char c div 16 mod 16"
proof -
  have "drop_bit 4 (uchar c) AND 0xF = take_bit 4 (drop_bit 4 (uchar c))"
    by (simp add: take_bit_eq_mask mask_eq_exp_minus_1)
  then show ?thesis
    by (simp add: unat_uchar take_bit_eq_mod drop_bit_eq_div unat_mod unat_div)
qed

lemma uchar_less: "(uchar c < 0x20) = ((of_char c :: nat) < 0x20)"
  by (simp add: word_less_nat_alt unat_uchar)

lemma switch_table: "json_escape_switch = json_escape_table"
  by (rule ext)
    (simp add: json_escape_switch_def json_escape_table_def uchar_less unat_low unat_high
      hex_nth)

lemma length_switch_pos: "0 < length (json_escape_switch c)"
  by (simp add: json_escape_switch_def)

lemma NUL_notin_switch: "NUL \<notin> set (json_escape_switch c)"
proof -
  have "hex ! unat (drop_bit 4 (uchar c) AND 0xF) \<noteq> NUL" "hex ! unat (uchar c AND 0xF) \<noteq> NUL"
    by (rule hex_nth_not_NUL, simp add: unat_low unat_high)+
  from this this [symmetric] show ?thesis
    by (auto simp: json_escape_switch_def uchar_less)
qed

lemma NUL_notin_escaped: "NUL \<notin> set (escaped src)"
  using NUL_notin_switch by (auto simp: escaped_def)

lemma cstr_append_NUL: "NUL \<notin> set s \<Longrightarrow> cstr (s @ NUL # r) = s"
  by (induction s) (auto simp: cstr_def)

lemma cstr_no_NUL: "NUL \<notin> set s \<Longrightarrow> cstr s = s"
  by (induction s) (auto simp: cstr_def)

lemma NUL_notin_cstr: "NUL \<notin> set (cstr s)"
  by (induction s) (auto simp: cstr_def)

lemma hex_value_lower: "k < 16 \<Longrightarrow> hex_value (lower_hex_digit k) = Some k"
  by (auto simp: hex_value_def lower_hex_digit_def Let_def)

lemma hex_value_zero: "hex_value (CHR ''0'') = Some 0"
  by (simp add: hex_value_def)

lemma unescape_u00:
  assumes "(of_char c :: nat) < 0x20"
  shows "json_unescape ([BSL, CHR ''u'', CHR ''0'', CHR ''0'',
           lower_hex_digit (of_char c div 16), lower_hex_digit (of_char c mod 16)] @ r)
         = map_option (\<lambda>t. c # t) (json_unescape r)"
proof -
  let ?n = "of_char c :: nat"
  have hi: "hex_value (lower_hex_digit (?n div 16)) = Some (?n div 16)"
    using assms by (intro hex_value_lower) simp
  have lo: "hex_value (lower_hex_digit (?n mod 16)) = Some (?n mod 16)"
    by (intro hex_value_lower) simp
  have n: "?n div 16 * 16 + ?n mod 16 = ?n" by simp
  have enc: "(\<lambda>t. utf8_encode ?n @ t) = (\<lambda>t. c # t)"
    using assms by (simp add: utf8_encode_def)
  show ?thesis
    using assms by (simp add: hi lo hex_value_zero n enc)
qed

lemma unescape_table:
  "json_unescape (json_escape_table c @ r) = map_option (\<lambda>t. c # t) (json_unescape r)"
proof (cases "c = DQ \<or> c = BSL \<or> c = CHR 0x08 \<or> c = CHR 0x0C \<or> c = CHR 0x0A
    \<or> c = CHR 0x0D \<or> c = CHR 0x09")
  case True
  then show ?thesis by (auto simp: json_escape_table_def)
next
  case False
  show ?thesis
  proof (cases "(of_char c :: nat) < 0x20")
    case True
    with False unescape_u00 [OF True, of r] show ?thesis
      by (simp add: json_escape_table_def)
  next
    case F2: False
    with False show ?thesis by (simp add: json_escape_table_def)
  qed
qed

lemma loop_success:
  "fits cs (length dst) di \<Longrightarrow>
   json_escape_loop cs dst di =
     (int (di + length (escaped cs)),
      take di dst @ escaped cs @ NUL # drop (di + length (escaped cs) + 1) dst)"
proof (induction cs arbitrary: dst di)
  case Nil
  then show ?case by (simp add: escaped_def upd_conv_take_nth_drop)
next
  case (Cons c cs)
  let ?e = "json_escape_switch c"
  have le: "di + length ?e \<le> length dst"
    using Cons.prems length_json_escape_switch [of c] by simp
  let ?dst' = "take di dst @ ?e @ drop (di + length ?e) dst"
  have len: "length ?dst' = length dst" using le by simp
  have fp: "foldl poke (dst, di) ?e = (?dst', di + length ?e)"
    using le by (rule foldl_poke)
  have "fits cs (length ?dst') (di + length ?e)"
    using Cons.prems len by simp
  from Cons.IH [OF this]
  have "json_escape_loop cs ?dst' (di + length ?e) =
     (int (di + length ?e + length (escaped cs)),
      take (di + length ?e) ?dst' @ escaped cs @ NUL # drop (di + length ?e + length (escaped cs) + 1) ?dst')" .
  moreover have "di < length dst"
    using le length_switch_pos [of c] by arith
  then have "take (di + length ?e) ?dst' = take di dst @ ?e"
    using le by (simp add: min_def)
  moreover have "drop (di + length ?e + length (escaped cs) + 1) ?dst'
      = drop (di + length ?e + length (escaped cs) + 1) dst"
    using le by (simp add: min_def add.commute add.left_commute)
  moreover have "\<not> length dst \<le> di + 6" using Cons.prems by simp
  ultimately show ?case
    by (simp add: fp escaped_def add.assoc)
qed

lemma loop_fail:
  "\<not> fits cs (length dst) di \<Longrightarrow> fst (json_escape_loop cs dst di) = - 1"
proof (induction cs arbitrary: dst di)
  case Nil
  then show ?case by simp
next
  case (Cons c cs)
  show ?case
  proof (cases "length dst \<le> di + 6")
    case True
    then show ?thesis by simp
  next
    case False
    let ?e = "json_escape_switch c"
    have le: "di + length ?e \<le> length dst"
      using False length_json_escape_switch [of c] by simp
    let ?dst' = "take di dst @ ?e @ drop (di + length ?e) dst"
    have len: "length ?dst' = length dst" using le by simp
    have fp: "foldl poke (dst, di) ?e = (?dst', di + length ?e)"
      using le by (rule foldl_poke)
    have "\<not> fits cs (length ?dst') (di + length ?e)"
      using Cons.prems False len by simp
    from Cons.IH [OF this] False show ?thesis by (simp add: fp)
  qed
qed

lemma length_loop: "length (snd (json_escape_loop cs dst di)) = length dst"
proof (induction cs arbitrary: dst di)
  case Nil
  then show ?case by simp
next
  case (Cons c cs)
  show ?case
  proof (cases "length dst \<le> di + 6")
    case True
    then show ?thesis by simp
  next
    case False
    let ?e = "json_escape_switch c"
    have le: "di + length ?e \<le> length dst"
      using False length_json_escape_switch [of c] by simp
    let ?dst' = "take di dst @ ?e @ drop (di + length ?e) dst"
    have len: "length ?dst' = length dst" using le by simp
    have fp: "foldl poke (dst, di) ?e = (?dst', di + length ?e)"
      using le by (rule foldl_poke)
    from Cons.IH [of ?dst' "di + length ?e"] False len show ?thesis by (simp add: fp)
  qed
qed

lemma length_json_escape: "length (snd (json_escape src dst)) = length dst"
  by (simp add: json_escape_def length_loop)

lemma fits_closed:
  "fits cs n di = (if cs = [] then di < n else di + length (escaped (butlast cs)) + 6 < n)"
proof (induction cs arbitrary: di)
  case Nil
  then show ?case by simp
next
  case (Cons c cs)
  then show ?case
    using length_switch_pos [of c] length_json_escape_switch [of c] by (auto simp: escaped_def)
qed

lemma json_escape_ok:
  "escape_ok src (length dst) \<Longrightarrow>
   json_escape src dst = (int (length (escaped src)), escaped src @ NUL # drop (length (escaped src) + 1) dst)"
  using loop_success [of src dst 0] by (simp add: json_escape_def escape_ok_def)

lemma json_escape_fail:
  "\<not> escape_ok src (length dst) \<Longrightarrow> fst (json_escape src dst) = - 1"
  using loop_fail [of src dst 0] by (auto simp: json_escape_def escape_ok_def)

lemma json_escape_nonneg_iff: "(0 \<le> fst (json_escape src dst)) = escape_ok src (length dst)"
  using json_escape_ok [of src dst] json_escape_fail [of src dst] by (cases "escape_ok src (length dst)") auto

lemma cstr_json_escape:
  "escape_ok src (length dst) \<Longrightarrow> cstr (snd (json_escape src dst)) = escaped src"
  by (simp add: json_escape_ok cstr_append_NUL NUL_notin_escaped)

lemma escaped_table: "escaped src = concat (map json_escape_table src)"
  by (simp add: escaped_def switch_table)

lemma unescape_escaped: "json_unescape (escaped src) = Some src"
proof (induction src)
  case Nil
  then show ?case by (simp add: escaped_def)
next
  case (Cons c cs)
  have "escaped (c # cs) = json_escape_table c @ escaped cs"
    by (simp add: escaped_def switch_table)
  then show ?case using Cons by (simp add: unescape_table)
qed

lemma hex_nth_printable:
  assumes "k < 16"
  shows "(0x20::nat) \<le> of_char (hex ! k)"
proof -
  have "hex ! k \<in> set hex"
    using assms by (intro nth_mem) (simp add: hex_def)
  then show ?thesis by (auto simp: hex_def)
qed

lemma switch_printable: "c' \<in> set (json_escape_switch c) \<Longrightarrow> (0x20::nat) \<le> of_char c'"
proof -
  have "(0x20::nat) \<le> of_char (hex ! unat (drop_bit 4 (uchar c) AND 0xF))"
       "(0x20::nat) \<le> of_char (hex ! unat (uchar c AND 0xF))"
    by (rule hex_nth_printable, simp add: unat_low unat_high)+
  then show "c' \<in> set (json_escape_switch c) \<Longrightarrow> (0x20::nat) \<le> of_char c'"
    by (auto simp: json_escape_switch_def uchar_less split: if_splits)
qed

lemma escaped_printable: "c \<in> set (escaped src) \<Longrightarrow> (0x20::nat) \<le> of_char c"
  using switch_printable by (auto simp: escaped_def)

lemma json_escape_fails_iff:
  "(fst (json_escape src dst) = - 1) =
     (length dst = 0 \<or> (src \<noteq> [] \<and> length dst \<le> length (escaped (butlast src)) + 6))"
proof (cases "escape_ok src (length dst)")
  case True
  then show ?thesis
    by (auto simp: json_escape_ok escape_ok_def fits_closed split: if_splits)
next
  case False
  then show ?thesis
    by (auto simp: json_escape_fail escape_ok_def fits_closed split: if_splits)
qed

lemma length_escaped_six:
  "\<forall>c\<in>set src. length (json_escape_switch c) = 6 \<Longrightarrow> length (escaped src) = 6 * length src"
  by (induction src) (auto simp: escaped_def)

subsection \<open>The claims about json\_escape\<close>

text \<open>
  C4. Whenever \<^verbatim>\<open>json_escape\<close> succeeds, the C string it leaves in \<open>dst\<close> is the
  concatenation, byte by byte of \<open>src\<close>, of the entries of the specification's table:
  quote, backslash, backspace, form feed, newline, carriage return and tab become their
  two-character escapes, every other byte below \<open>0x20\<close> becomes \<^verbatim>\<open>\u00XX\<close> with lowercase
  hexadecimal digits, and every other byte (also one that is not valid UTF-8) is copied;
  the returned count is the length of that string.
\<close>

theorem json_escape_follows_table:
  "0 \<le> fst (json_escape src dst) \<Longrightarrow>
     cstr (snd (json_escape src dst)) = concat (map json_escape_table src) \<and>
     fst (json_escape src dst) = int (length (concat (map json_escape_table src)))"
proof -
  assume "0 \<le> fst (json_escape src dst)"
  then have ok: "escape_ok src (length dst)"
    by (simp add: json_escape_nonneg_iff)
  have "cstr (snd (json_escape src dst)) = escaped src"
    using ok by (rule cstr_json_escape)
  moreover have "fst (json_escape src dst) = int (length (escaped src))"
    using ok by (simp add: json_escape_ok)
  ultimately show ?thesis
    by (simp add: escaped_table)
qed

theorem json_escape_follows_table_witness:
  "0 \<le> fst (json_escape [DQ, BSL, CHR 0x08, CHR 0x0C, CHR 0x0A, CHR 0x0D, CHR 0x09, CHR 0x01,
          CHR 0x1F, CHR ''a'', CHR 0xFF] (replicate 64 (CHR ''x''))) \<and>
   cstr (snd (json_escape [DQ, BSL, CHR 0x08, CHR 0x0C, CHR 0x0A, CHR 0x0D, CHR 0x09, CHR 0x01,
          CHR 0x1F, CHR ''a'', CHR 0xFF] (replicate 64 (CHR ''x'')))) =
     [BSL, DQ, BSL, BSL, BSL, CHR ''b'', BSL, CHR ''f'', BSL, CHR ''n'', BSL, CHR ''r'',
      BSL, CHR ''t''] @ BSL # ''u0001'' @ BSL # ''u001f'' @ [CHR ''a'', CHR 0xFF]"
proof -
  let ?src = "[DQ, BSL, CHR 0x08, CHR 0x0C, CHR 0x0A, CHR 0x0D, CHR 0x09, CHR 0x01,
          CHR 0x1F, CHR ''a'', CHR 0xFF]"
  have h: "0 \<le> fst (json_escape ?src (replicate 64 (CHR ''x'')))"
    by (simp add: json_escape_nonneg_iff escape_ok_def json_escape_switch_def)
  have t: "concat (map json_escape_table ?src) =
     [BSL, DQ, BSL, BSL, BSL, CHR ''b'', BSL, CHR ''f'', BSL, CHR ''n'', BSL, CHR ''r'',
      BSL, CHR ''t''] @ BSL # ''u0001'' @ BSL # ''u001f'' @ [CHR ''a'', CHR 0xFF]"
    by (simp add: json_escape_table_def lower_hex_digit_def char_of_eq_iff)
  from json_escape_follows_table [OF h] h t show ?thesis by simp
qed

text \<open>
  C5. Whenever \<^verbatim>\<open>json_escape\<close> succeeds, its output is a JSON string body: it holds no
  byte below \<open>0x20\<close>, and the decoder, which refuses a raw quote and a backslash that starts
  no escape, accepts it; and decoding its escapes gives back exactly the input bytes.
\<close>

theorem json_escape_round_trip:
  "0 \<le> fst (json_escape src dst) \<Longrightarrow>
     json_unescape (cstr (snd (json_escape src dst))) = Some src \<and>
     (\<forall>c\<in>set (cstr (snd (json_escape src dst))). (0x20::nat) \<le> of_char c)"
  by (simp add: json_escape_nonneg_iff cstr_json_escape unescape_escaped escaped_printable)

theorem json_escape_round_trip_witness:
  "0 \<le> fst (json_escape [CHR ''a'', DQ, CHR 0x0A, CHR 0x00, CHR 0x1B, BSL, CHR 0xC3, CHR 0xA9]
          (replicate 40 NUL)) \<and>
   json_unescape (cstr (snd (json_escape
      [CHR ''a'', DQ, CHR 0x0A, CHR 0x00, CHR 0x1B, BSL, CHR 0xC3, CHR 0xA9] (replicate 40 NUL))))
     = Some [CHR ''a'', DQ, CHR 0x0A, CHR 0x00, CHR 0x1B, BSL, CHR 0xC3, CHR 0xA9]"
proof -
  have h: "0 \<le> fst (json_escape
      [CHR ''a'', DQ, CHR 0x0A, CHR 0x00, CHR 0x1B, BSL, CHR 0xC3, CHR 0xA9] (replicate 40 NUL))"
    by (simp add: json_escape_nonneg_iff escape_ok_def json_escape_switch_def)
  from json_escape_round_trip [OF h] h show ?thesis by simp
qed

text \<open>
  C6, as stated, fails: \<^verbatim>\<open>json_escape\<close> tests the room for the byte at hand only, so an
  input whose length times 6 exceeds the capacity by exactly one byte is escaped with
  success when its bytes need less than six bytes each. Here \<open>''ab''\<close> goes into 11 bytes.
\<close>

theorem json_escape_worst_case_counterexample:
  "length ''ab'' * 6 = length (replicate 11 (CHR ''x'')) + 1 \<and>
   json_escape ''ab'' (replicate 11 (CHR ''x'')) = (2, ''ab'' @ NUL # replicate 8 (CHR ''x''))"
  by code_simp

text \<open>
  C6, amended. \<^verbatim>\<open>json_escape\<close> returns \<open>-1\<close> exactly when the capacity is 0 or the input
  is not empty and, at its last byte, the bytes written so far plus 6 reach the capacity
  (the test \<^verbatim>\<open>di + 6 >= dst_size\<close> made before every byte: 6 bytes of headroom and the
  terminator). When it does not return \<open>-1\<close>, the string it leaves is the whole escaped
  input, never a shortened one. It does return \<open>-1\<close> when every input byte needs a six-byte
  escape and the input length times 6 exceeds the capacity by exactly one byte.
\<close>

theorem json_escape_too_long:
  "((fst (json_escape src dst) = - 1) =
      (length dst = 0 \<or> (src \<noteq> [] \<and> length dst \<le> length (escaped (butlast src)) + 6))) \<and>
   (fst (json_escape src dst) \<noteq> - 1 \<longrightarrow>
      fst (json_escape src dst) = int (length (escaped src)) \<and>
      cstr (snd (json_escape src dst)) = escaped src) \<and>
   (src \<noteq> [] \<and> (\<forall>c\<in>set src. length (json_escape_switch c) = 6) \<and>
      length src * 6 = length dst + 1 \<longrightarrow> fst (json_escape src dst) = - 1)"
proof (intro conjI impI)
  show "(fst (json_escape src dst) = - 1) =
      (length dst = 0 \<or> (src \<noteq> [] \<and> length dst \<le> length (escaped (butlast src)) + 6))"
    by (rule json_escape_fails_iff)
next
  assume "fst (json_escape src dst) \<noteq> - 1"
  then have ok: "escape_ok src (length dst)"
    using json_escape_fail by blast
  then show "fst (json_escape src dst) = int (length (escaped src))"
    by (simp add: json_escape_ok)
  from ok show "cstr (snd (json_escape src dst)) = escaped src"
    by (rule cstr_json_escape)
next
  assume a: "src \<noteq> [] \<and> (\<forall>c\<in>set src. length (json_escape_switch c) = 6) \<and>
      length src * 6 = length dst + 1"
  then have "\<forall>c\<in>set (butlast src). length (json_escape_switch c) = 6"
    by (auto dest: in_set_butlastD)
  then have "length (escaped (butlast src)) = 6 * (length src - 1)"
    using length_escaped_six [of "butlast src"] by simp
  with a show "fst (json_escape src dst) = - 1"
    by (simp add: json_escape_fails_iff) arith
qed

theorem json_escape_too_long_witness:
  "fst (json_escape [CHR 0x01, CHR 0x02] (replicate 11 (CHR ''x''))) = - 1 \<and>
   fst (json_escape [CHR 0x01] (replicate 5 (CHR ''x''))) = - 1 \<and>
   cstr (snd (json_escape [CHR 0x01, CHR 0x02] (replicate 13 (CHR ''x'')))) =
     BSL # ''u0001'' @ BSL # ''u0002''"
proof -
  have s: "json_escape_switch (CHR 0x01) = BSL # ''u0001''"
          "json_escape_switch (CHR 0x02) = BSL # ''u0002''"
    by (simp_all add: json_escape_switch_def uchar_def hex_def)
  from json_escape_too_long [of "[CHR 0x01, CHR 0x02]" "replicate 11 (CHR ''x'')"]
       json_escape_too_long [of "[CHR 0x01]" "replicate 5 (CHR ''x'')"]
       json_escape_too_long [of "[CHR 0x01, CHR 0x02]" "replicate 13 (CHR ''x'')"]
  show ?thesis
    by (simp add: s escaped_def)
qed

section \<open>Properties of get\_chromium\_theme\<close>

lemma cstr_append_NUL_any: "cstr (a @ NUL # r) = cstr a"
  by (induction a) (auto simp: cstr_def)

lemma length_fgets_bytes: "length (fgets_bytes n cs) \<le> n"
  by (induction n cs rule: fgets_bytes.induct) auto

lemma digit_or_comma_not_NUL: "digit_or_comma c \<Longrightarrow> c \<noteq> NUL"
  by (auto simp: digit_or_comma_def)

lemma theme_loop_eq:
  "j \<le> 11 \<Longrightarrow> length ct = 12 \<Longrightarrow>
   theme_loop cs ct j =
     (take j ct @ take (11 - j) (filter digit_or_comma (cstr cs))
        @ drop (j + length (take (11 - j) (filter digit_or_comma (cstr cs)))) ct,
      j + length (take (11 - j) (filter digit_or_comma (cstr cs))))"
proof (induction cs arbitrary: ct j)
  case Nil
  then show ?case by (simp add: cstr_def)
next
  case (Cons c cs)
  show ?case
  proof (cases "c = NUL")
    case True
    then show ?thesis by (simp add: cstr_def)
  next
    case nz: False
    show ?thesis
    proof (cases "digit_or_comma c")
      case False
      with nz Cons show ?thesis by (simp add: cstr_def)
    next
      case True
      show ?thesis
      proof (cases "j = 11")
        case True
        with nz \<open>digit_or_comma c\<close> show ?thesis
          by (simp add: cstr_def CHROMIUM_THEME_MAX_def)
      next
        case False
        with Cons.prems have j: "j < 11" by simp
        have upd: "ct[j := c] = take j ct @ c # drop (Suc j) ct"
          using j Cons.prems by (simp add: upd_conv_take_nth_drop)
        have "theme_loop cs (ct[j := c]) (Suc j) = 
          (take (Suc j) (ct[j := c]) @ take (11 - Suc j) (filter digit_or_comma (cstr cs))
        @ drop (Suc j + length (take (11 - Suc j) (filter digit_or_comma (cstr cs)))) (ct[j := c]),
      Suc j + length (take (11 - Suc j) (filter digit_or_comma (cstr cs))))"
          using j Cons.prems by (intro Cons.IH) simp_all
        moreover have "take (Suc j) (ct[j := c]) = take j ct @ [c]"
          using j Cons.prems by (simp add: upd min_def)
        moreover have "drop (Suc j + k) (ct[j := c]) = drop (Suc j + k) ct" for k
          by simp
        moreover have "11 - j = Suc (11 - Suc j)"
          using j by arith
        then have "take (11 - j) (c # xs) = c # take (11 - Suc j) xs" for xs
          by (simp only: take_Suc_Cons)
        ultimately show ?thesis
          using nz True j by (simp add: cstr_def CHROMIUM_THEME_MAX_def)
      qed
    qed
  qed
qed

lemma take_fgets_line:
  assumes "length got \<le> STRING_MAX - 1"
  shows "cstr (take STRING_MAX (got @ NUL # r)) = cstr got"
proof -
  have "take STRING_MAX (got @ NUL # r) = got @ NUL # take (STRING_MAX - Suc (length got)) r"
    using assms by (simp add: STRING_MAX_def take_Cons')
  then show ?thesis by (simp add: cstr_append_NUL_any)
qed

lemma get_chromium_theme_content:
  assumes "bytes \<noteq> []" and "length ct = 12"
  shows "get_chromium_theme (Content bytes) line0 ct en =
     (0,
      take 11 (filter digit_or_comma (cstr (fgets_bytes (STRING_MAX - 1) bytes))) @ NUL #
        drop (length (take 11 (filter digit_or_comma (cstr (fgets_bytes (STRING_MAX - 1) bytes))))
              + 1) ct,
      en)"
proof -
  define got where "got = fgets_bytes (STRING_MAX - 1) bytes"
  define line where "line = got @ NUL # drop (length got + 1) line0"
  define out where "out = take 11 (filter digit_or_comma (cstr got))"
  have f: "fgets line0 STRING_MAX bytes = Some line"
    using assms(1) by (simp add: fgets_def line_def got_def Let_def)
  have c: "cstr (take STRING_MAX line) = cstr got"
    unfolding line_def got_def by (rule take_fgets_line) (rule length_fgets_bytes)
  have "theme_loop (take STRING_MAX line) ct 0 =
      (take 0 ct @ take (11 - 0) (filter digit_or_comma (cstr (take STRING_MAX line)))
        @ drop (0 + length (take (11 - 0) (filter digit_or_comma (cstr (take STRING_MAX line))))) ct,
      0 + length (take (11 - 0) (filter digit_or_comma (cstr (take STRING_MAX line)))))"
    using assms(2) by (intro theme_loop_eq) simp_all
  then have l: "theme_loop (take STRING_MAX line) ct 0 = (out @ drop (length out) ct, length out)"
    unfolding c out_def by simp
  have "length out < length (out @ drop (length out) ct)"
    using assms(2) by (simp add: out_def)
  then have u: "(out @ drop (length out) ct)[length out := NUL] = out @ NUL # drop (length out + 1) ct"
    by (simp add: upd_conv_take_nth_drop)
  have "get_chromium_theme (Content bytes) line0 ct en = (0, out @ NUL # drop (length out + 1) ct, en)"
    by (simp add: get_chromium_theme_def f l u)
  then show ?thesis
    by (simp add: out_def got_def)
qed

lemma filter_digit_or_comma_no_NUL: "NUL \<notin> set (take n (filter digit_or_comma xs))"
proof
  assume "NUL \<in> set (take n (filter digit_or_comma xs))"
  then have "NUL \<in> set (filter digit_or_comma xs)"
    by (rule in_set_takeD)
  then have "digit_or_comma NUL" by simp
  then show False by (simp add: digit_or_comma_def)
qed

subsection \<open>The claims about get\_chromium\_theme\<close>

text \<open>
  C3, as stated, fails for a line that holds a NUL byte: the loop stops at the first NUL
  (the array is read as a C string), so the digits and commas after it are not copied.
  For the line \<open>1\<close>, NUL, \<open>2\<close>, newline the output is \<open>1\<close>, while the digits and commas of
  the line are \<open>12\<close>.
\<close>

theorem get_chromium_theme_NUL_counterexample:
  "cstr (fst (snd (get_chromium_theme (Content [CHR ''1'', NUL, CHR ''2'', CHR 0x0A])
      (replicate 256 (CHR ''x'')) (replicate 12 NUL) 0))) = ''1'' \<and>
   take 11 (filter digit_or_comma (fgets_bytes 255 [CHR ''1'', NUL, CHR ''2'', CHR 0x0A])) = ''12''"
  by (simp add: get_chromium_theme_content cstr_def digit_or_comma_def STRING_MAX_def)

text \<open>
  C3, amended. For every theme file that is opened and holds at least one byte, with
  \<open>line\<close> the bytes \<^verbatim>\<open>fgets\<close> reads (at most 255, ending after the first newline),
  \<^verbatim>\<open>get_chromium_theme\<close> returns 0 and leaves in the 12-byte destination the C string of
  the digits and commas, in their order, of the part of \<open>line\<close> before its first NUL byte,
  cut after 11 characters; every other byte is dropped without an error. For a line with
  no NUL byte these are the digits and commas of the whole line.
\<close>

theorem get_chromium_theme_filters:
  "bytes \<noteq> [] \<Longrightarrow> length ct = CHROMIUM_THEME_MAX \<Longrightarrow>
     fst (get_chromium_theme (Content bytes) line0 ct en) = 0 \<and>
     cstr (fst (snd (get_chromium_theme (Content bytes) line0 ct en))) =
       take 11 (filter digit_or_comma
         (takeWhile (\<lambda>c. c \<noteq> NUL) (fgets_bytes (STRING_MAX - 1) bytes))) \<and>
     (NUL \<notin> set (fgets_bytes (STRING_MAX - 1) bytes) \<longrightarrow>
        cstr (fst (snd (get_chromium_theme (Content bytes) line0 ct en))) =
          take 11 (filter digit_or_comma (fgets_bytes (STRING_MAX - 1) bytes)))"
proof -
  assume a: "bytes \<noteq> []" "length ct = CHROMIUM_THEME_MAX"
  then have l: "length ct = 12" by (simp add: CHROMIUM_THEME_MAX_def)
  let ?line = "fgets_bytes (STRING_MAX - 1) bytes"
  have "cstr (fst (snd (get_chromium_theme (Content bytes) line0 ct en))) =
      take 11 (filter digit_or_comma (cstr ?line))"
    by (simp add: get_chromium_theme_content [OF a(1) l] cstr_append_NUL
        filter_digit_or_comma_no_NUL)
  moreover have "NUL \<notin> set ?line \<longrightarrow> cstr ?line = ?line"
    by (simp add: cstr_no_NUL)
  moreover have "fst (get_chromium_theme (Content bytes) line0 ct en) = 0"
    by (simp add: get_chromium_theme_content [OF a(1) l])
  moreover have "cstr ?line = takeWhile (\<lambda>c. c \<noteq> NUL) ?line"
    by (simp add: cstr_def)
  ultimately show ?thesis
    by metis
qed

theorem get_chromium_theme_filters_witness:
  "''rgb(23, 43, 67);'' \<noteq> [] \<and> length (replicate 12 NUL) = CHROMIUM_THEME_MAX \<and>
   cstr (fst (snd (get_chromium_theme (Content ''rgb(23, 43, 67);'') (replicate 256 (CHR ''x''))
      (replicate 12 NUL) 0))) = ''23,43,67''"
proof -
  have h: "''rgb(23, 43, 67);'' \<noteq> []" "length (replicate 12 NUL) = CHROMIUM_THEME_MAX"
    by (simp_all add: CHROMIUM_THEME_MAX_def)
  have l: "fgets_bytes (STRING_MAX - 1) ''rgb(23, 43, 67);'' = ''rgb(23, 43, 67);''"
    by (simp add: STRING_MAX_def)
  have e: "take 11 (filter digit_or_comma (takeWhile (\<lambda>c. c \<noteq> NUL)
      (fgets_bytes (STRING_MAX - 1) ''rgb(23, 43, 67);''))) = ''23,43,67''"
    unfolding l by (simp add: digit_or_comma_def)
  note t = get_chromium_theme_filters [OF h, of "replicate 256 (CHR ''x'')" 0]
  show ?thesis
  proof (intro conjI)
    show "''rgb(23, 43, 67);'' \<noteq> []" by (rule h(1))
    show "length (replicate 12 NUL) = CHROMIUM_THEME_MAX" by (rule h(2))
    show "cstr (fst (snd (get_chromium_theme (Content ''rgb(23, 43, 67);'')
        (replicate 256 (CHR ''x'')) (replicate 12 NUL) 0))) = ''23,43,67''"
      using t [THEN conjunct2, THEN conjunct1] e by (rule trans)
  qed
qed

text \<open>
  C7. An empty theme file: \<^verbatim>\<open>fgets\<close> returns \<^verbatim>\<open>NULL\<close> at the end of the file without
  setting \<^verbatim>\<open>errno\<close>, so \<^verbatim>\<open>return errno\<close> returns the value \<^verbatim>\<open>errno\<close> had before the call.
  When that is 0 the failed read is reported as success and the destination is left as
  it was.
\<close>

theorem get_chromium_theme_empty_file:
  "get_chromium_theme (Content []) line0 ct 0 = (0, ct, 0)"
  by (simp add: get_chromium_theme_def fgets_def)

lemma get_chromium_theme_failures:
  "get_chromium_theme (Open_fails e) line0 ct en = (e, ct, e)"
  "get_chromium_theme (Read_fails e) line0 ct en = (e, ct, e)"
  "get_chromium_theme (Content []) line0 ct en = (en, ct, en)"
  by (simp_all add: get_chromium_theme_def fgets_def)

text \<open>
  C10. Whenever \<^verbatim>\<open>get_chromium_theme\<close> returns a value other than 0, the destination
  array is the one it was given: no byte of it is written.
\<close>

theorem get_chromium_theme_error_frame:
  "fst (get_chromium_theme f line0 ct en) \<noteq> 0 \<Longrightarrow>
     fst (snd (get_chromium_theme f line0 ct en)) = ct"
  by (cases f) (auto simp: get_chromium_theme_def split: option.splits prod.splits)

theorem get_chromium_theme_error_frame_witness:
  "fst (get_chromium_theme (Open_fails 2) (replicate 256 NUL) ''255,255,255'' 0) \<noteq> 0 \<and>
   fst (snd (get_chromium_theme (Read_fails 5) (replicate 256 NUL) ''255,255,255'' 0)) =
     ''255,255,255'' \<and>
   fst (snd (get_chromium_theme (Open_fails 2) (replicate 256 NUL) ''255,255,255'' 0)) =
     ''255,255,255''"
proof -
  have h: "fst (get_chromium_theme (Open_fails 2) (replicate 256 NUL) ''255,255,255'' 0) \<noteq> 0"
          "fst (get_chromium_theme (Read_fails 5) (replicate 256 NUL) ''255,255,255'' 0) \<noteq> 0"
    by (simp_all add: get_chromium_theme_def)
  from get_chromium_theme_error_frame [OF h(1)] get_chromium_theme_error_frame [OF h(2)] h
  show ?thesis by simp
qed

section \<open>Properties of the event loop\<close>

lemma ev_size_eq: "ev_size buf off = 16 + unat (le32 buf (off + 12))"
proof -
  have "unat (le32 buf (off + 12)) < 2 ^ 32"
    using unsigned_less [of "le32 buf (off + 12)", where 'a = nat] by simp
  then have "16 + unat (le32 buf (off + 12)) < (2 ^ 64 :: nat)"
    by simp
  then show ?thesis
    by (simp add: ev_size_def)
qed

text \<open>
  In the loop over a batch of \<open>n\<close> bytes, a record at \<open>off\<close> whose header lies in the
  array and whose declared size, 16 plus its \<open>len\<close> field, reaches past the \<open>n\<close> bytes read
  ends the loop at once: the run goes on, to the next read, in the same state. Nothing is
  sent and nothing exits, whatever the mask, the name and the bytes after the record are;
  only the \<open>len\<close> field is looked at.
\<close>

lemma events_loop_overrun:
  "off < n \<Longrightarrow> off + 16 \<le> length buf \<Longrightarrow> n < off + (16 + unat (le32 buf (off + 12))) \<Longrightarrow>
     events_loop W buf n off s = Running s"
  by (subst events_loop.simps) (simp add: ev_size_eq)

lemma le32_bytes:
  "le32 (char_of (a::nat) # char_of (b::nat) # char_of (c::nat) # char_of (d::nat) # r) 0 = word_of_nat (a mod 256 + 256 * (b mod 256) + 65536 * (c mod 256) + 16777216 * (d mod 256))"
  by (simp add: le32_def)

lemma le32_drop: "i + 4 \<le> length a \<Longrightarrow> le32 a i = le32 (drop i a) 0"
  by (simp add: le32_def add.commute)

lemma events_loop_overrun_example:
  "(32::nat) < 52 \<and>
   32 + 16 \<le> length (event 128 16 ''theme'' @ take 20 (event 128 16 ''theme'')
       @ replicate 4044 (CHR ''y'')) \<and>
   52 < 32 + (16 + unat (le32 (event 128 16 ''theme'' @ take 20 (event 128 16 ''theme'')
       @ replicate 4044 (CHR ''y'')) (32 + 12))) \<and>
   events_loop example_world (event 128 16 ''theme'' @ take 20 (event 128 16 ''theme'')
       @ replicate 4044 (CHR ''y'')) 52 32 initial_state = Running initial_state"
proof -
  let ?buf = "event 128 16 ''theme'' @ take 20 (event 128 16 ''theme'')
       @ replicate 4044 (CHR ''y'')"
  have l: "length ?buf = 4096"
    by (simp add: event_def)
  have d: "drop 44 ?buf = map char_of [16, 0, 0, 0 :: nat]
      @ take 4 (drop 16 (event 128 16 ''theme'')) @ replicate 4044 (CHR ''y'')"
    by (simp add: event_def)
  have "le32 ?buf 44 = le32 (drop 44 ?buf) 0"
    by (rule le32_drop) (simp add: l)
  also have "\<dots> = 16"
    unfolding d by (simp add: le32_bytes)
  finally have len: "le32 ?buf (32 + 12) = 16" by simp
  have h: "(32::nat) < 52" "32 + 16 \<le> length ?buf" "52 < 32 + (16 + unat (le32 ?buf (32 + 12)))"
    unfolding len l by simp_all
  from events_loop_overrun [OF h, of example_world initial_state] h show ?thesis
    by blast
qed

section \<open>Properties of send\_msg\<close>

lemma snprintf_werr_fits:
  "length text < n \<Longrightarrow> snprintf_werr s n text = (0, text @ NUL # drop (length text + 1) s)"
  by (simp add: snprintf_werr_def vsnprintf_def min_def)

lemma snprintf_werr_too_long:
  "\<not> length text < n \<Longrightarrow> fst (snprintf_werr s n text) \<noteq> 0"
  by (simp add: snprintf_werr_def vsnprintf_def EINVAL_def ERANGE_def split: prod.splits)

lemma NUL_notin_msg_text: "NUL \<notin> set (msg_text rgb err e1 e2)"
  by (simp add: msg_text_def NUL_notin_cstr split: option.splits)

lemma format_msg_eq:
  "format_msg W rgb err en s =
     (fst (snprintf_werr ((msg s)[0 := NUL]) MSG_MAX
             (msg_text rgb err (esc_err_of err s) (esc_syserr_of W err en s))),
      s\<lparr>esc_err := esc_err_of err s, esc_syserr := esc_syserr_of W err en s,
        msg := snd (snprintf_werr ((msg s)[0 := NUL]) MSG_MAX
             (msg_text rgb err (esc_err_of err s) (esc_syserr_of W err en s))),
        sends := sends s + 1\<rparr>)"
  by (cases err) (simp_all add: format_msg_def esc_err_of_def esc_syserr_of_def Let_def
      case_prod_beta)

lemma format_msg_fits:
  assumes "length (msg_text rgb err (esc_err_of err s) (esc_syserr_of W err en s)) < MSG_MAX"
  shows "format_msg W rgb err en s =
     (0, s\<lparr>esc_err := esc_err_of err s, esc_syserr := esc_syserr_of W err en s,
            msg := msg_text rgb err (esc_err_of err s) (esc_syserr_of W err en s) @ NUL #
                     drop (length (msg_text rgb err (esc_err_of err s) (esc_syserr_of W err en s)) + 1)
                       ((msg s)[0 := NUL]),
            sends := sends s + 1\<rparr>)"
  by (simp add: format_msg_eq snprintf_werr_fits [OF assms])

lemma format_msg_too_long:
  assumes "\<not> length (msg_text rgb err (esc_err_of err s) (esc_syserr_of W err en s)) < MSG_MAX"
  shows "fst (format_msg W rgb err en s) \<noteq> 0"
  using snprintf_werr_too_long [OF assms, of "(msg s)[0 := NUL]"]
  by (simp add: format_msg_eq)

lemma le32_htole32: "le32 (htole32 w @ r) 0 = w"
proof -
  define n where "n = unat w"
  define q1 where "q1 = n div 256"
  define q2 where "q2 = q1 div 256"
  define q3 where "q3 = q2 div 256"
  have b: "n < 2 ^ 32"
    unfolding n_def using unsigned_less [of w, where 'a = nat] by simp
  have e1: "n = 256 * q1 + n mod 256" by (simp add: q1_def)
  have e2: "q1 = 256 * q2 + q1 mod 256" by (simp add: q2_def)
  have e3: "q2 = 256 * q3 + q2 mod 256" by (simp add: q3_def)
  have d2: "n div 65536 = q2"
    unfolding q2_def q1_def by (simp add: div_mult2_eq)
  have d3: "n div 16777216 = q3"
    unfolding q3_def q2_def q1_def by (simp add: div_mult2_eq)
  have "q3 < 256" using b unfolding d3 [symmetric] by simp
  then have m3: "q3 mod 256 = q3" by simp
  have "n mod 256 + 256 * (q1 mod 256) + 65536 * (q2 mod 256) + 16777216 * (q3 mod 256) = n"
    unfolding m3 using e1 e2 e3 by linarith
  then have "word_of_nat (n mod 256 + 256 * (q1 mod 256) + 65536 * (q2 mod 256)
      + 16777216 * (q3 mod 256)) = w"
    by (simp add: n_def)
  then show ?thesis
    by (simp add: le32_def htole32_def n_def [symmetric] q1_def [symmetric] d2 d3)
qed

lemma unat_word_of_nat_32: "n < 2 ^ 32 \<Longrightarrow> unat (word_of_nat n :: 32 word) = n"
  by (simp add: unat_of_nat)

lemma fwrite_all:
  "length bytes \<le> fst r \<Longrightarrow>
     fwrite bytes item r s = (length bytes div item, s\<lparr>stdout := stdout s @ bytes\<rparr>)"
  by (simp add: fwrite_def min_def)

lemma length_htole32: "length (htole32 w) = 4"
  by (simp add: htole32_def)

lemma send_msg_after_format:
  assumes f: "format_msg W rgb err en s = (0, s4)"
    and r: "stdout_replies W (sends s) = (r1, r2, r3)"
    and a1: "4 \<le> fst r1"
    and a2: "strlen (msg s4) \<le> fst r2"
    and b: "strlen (msg s4) < 2 ^ 32"
  shows "stdout (send_msg W rgb err en s) =
     stdout s4 @ htole32 (word_of_nat (strlen (msg s4))) @ take (strlen (msg s4)) (msg s4)"
proof -
  define n where "n = strlen (msg s4)"
  have u: "unat (word_of_nat n :: 32 word) = n"
    using b unfolding n_def by (rule unat_word_of_nat_32)
  define s5 where "s5 = s4\<lparr>stdout := stdout s4 @ htole32 (word_of_nat n)\<rparr>"
  have w1: "fwrite (htole32 (word_of_nat n)) 4 r1 s4 = (1, s5)"
    using a1 by (simp add: fwrite_all length_htole32 s5_def)
  have "length (take n (msg s4)) \<le> fst r2"
    using a2 unfolding n_def by simp
  have "n \<le> length (msg s4)"
    unfolding n_def strlen_def cstr_def by (rule length_takeWhile_le)
  then have ln: "length (take n (msg s4)) = n"
    by simp
  define s6 where "s6 = s5\<lparr>stdout := stdout s5 @ take n (msg s5)\<rparr>"
  have m5: "msg s5 = msg s4" by (simp add: s5_def)
  have w2: "fwrite (take n (msg s5)) 1 r2 s5 = (n, s6)"
    using a2 ln by (simp add: fwrite_all m5 s6_def n_def [symmetric])
  have "send_msg W rgb err en s = (case r3 of None \<Rightarrow> s6 | Some e \<Rightarrow> s6\<lparr>errno := e\<rparr>)"
    by (simp add: send_msg_def f r n_def [symmetric] u w1 w2 [unfolded One_nat_def] Let_def)
  then show ?thesis
    by (simp add: s6_def s5_def n_def split: option.splits)
qed


lemma format_msg_snd:
  "stdout (snd (format_msg W rgb err en s)) = stdout s"
  "chromium_theme (snd (format_msg W rgb err en s)) = chromium_theme s"
  "opens (snd (format_msg W rgb err en s)) = opens s"
  "notify_fd (snd (format_msg W rgb err en s)) = notify_fd s"
  "errno (snd (format_msg W rgb err en s)) = errno s"
  "sends (snd (format_msg W rgb err en s)) = sends s + 1"
  by (simp_all add: format_msg_eq)

lemma format_msg_zero:
  assumes "format_msg W rgb err en s = (0, s4)"
  shows "cstr (msg s4) = msg_text rgb err (esc_err_of err s) (esc_syserr_of W err en s)"
    and "length (msg_text rgb err (esc_err_of err s) (esc_syserr_of W err en s)) < MSG_MAX"
    and "esc_err s4 = esc_err_of err s" and "esc_syserr s4 = esc_syserr_of W err en s"
proof -
  define T where "T = msg_text rgb err (esc_err_of err s) (esc_syserr_of W err en s)"
  have fits: "length T < MSG_MAX"
  proof (rule ccontr)
    assume "\<not> length T < MSG_MAX"
    then have "fst (format_msg W rgb err en s) \<noteq> 0"
      unfolding T_def by (rule format_msg_too_long)
    with assms show False by simp
  qed
  then show "length (msg_text rgb err (esc_err_of err s) (esc_syserr_of W err en s)) < MSG_MAX"
    by (simp add: T_def)
  from format_msg_fits [OF fits [unfolded T_def]] assms
  have s4: "s4 = s\<lparr>esc_err := esc_err_of err s, esc_syserr := esc_syserr_of W err en s,
            msg := T @ NUL # drop (length T + 1) ((msg s)[0 := NUL]), sends := sends s + 1\<rparr>"
    by (simp add: T_def)
  have "cstr (T @ NUL # drop (length T + 1) ((msg s)[0 := NUL])) = T"
    by (rule cstr_append_NUL) (simp add: T_def NUL_notin_msg_text)
  then show "cstr (msg s4) = msg_text rgb err (esc_err_of err s) (esc_syserr_of W err en s)"
    by (simp add: s4 T_def)
  show "esc_err s4 = esc_err_of err s" "esc_syserr s4 = esc_syserr_of W err en s"
    by (simp_all add: s4)
qed

lemma take_strlen: "take (strlen m) m = cstr m"
  unfolding strlen_def cstr_def by (rule takeWhile_eq_take [symmetric])

lemma send_msg_not_sent:
  "fst (format_msg W rgb err en s) \<noteq> 0 \<Longrightarrow> stdout (send_msg W rgb err en s) = stdout s"
  by (simp add: send_msg_def case_prod_beta could_not_send_def format_msg_snd)


lemma send_msg_keeps:
  "chromium_theme (send_msg W rgb err en s) = chromium_theme s"
  "opens (send_msg W rgb err en s) = opens s"
  "notify_fd (send_msg W rgb err en s) = notify_fd s"
  by (simp_all add: send_msg_def case_prod_beta could_not_send_def format_msg_snd fwrite_def
      Let_def split: option.splits)

text \<open>
  C2. When the formatting succeeds (\<open>ret = 0\<close>) and standard output accepts the bytes
  offered, \<^verbatim>\<open>send_msg\<close> appends to standard output exactly the four bytes of the length
  of the body, which read back little-endian give that length, and then the body, the C
  string in \<open>msg\<close>: that many bytes, none of them NUL, and nothing after them. When the
  formatting fails nothing is written.
\<close>

theorem send_msg_frame:
  assumes "format_msg W rgb err en s = (ret, s4)"
    and "stdout_replies W (sends s) = (r1, r2, r3)"
  shows "(ret = 0 \<and> 4 \<le> fst r1 \<and> strlen (msg s4) \<le> fst r2 \<longrightarrow>
           stdout (send_msg W rgb err en s) =
             stdout s @ htole32 (word_of_nat (strlen (msg s4))) @ cstr (msg s4) \<and>
           unat (le32 (htole32 (word_of_nat (strlen (msg s4)))) 0) = strlen (msg s4) \<and>
           length (cstr (msg s4)) = strlen (msg s4) \<and>
           NUL \<notin> set (cstr (msg s4)) \<and> strlen (msg s4) < MSG_MAX) \<and>
         (ret \<noteq> 0 \<longrightarrow> stdout (send_msg W rgb err en s) = stdout s)"
proof (intro conjI impI)
  assume "ret \<noteq> 0"
  with assms(1) show "stdout (send_msg W rgb err en s) = stdout s"
    by (intro send_msg_not_sent) simp
next
  assume a: "ret = 0 \<and> 4 \<le> fst r1 \<and> strlen (msg s4) \<le> fst r2"
  with assms(1) have f: "format_msg W rgb err en s = (0, s4)" by simp
  have "strlen (msg s4) < MSG_MAX"
    using format_msg_zero(1,2) [OF f] by (simp add: strlen_def)
  then show "strlen (msg s4) < MSG_MAX" .
  then have b: "strlen (msg s4) < 2 ^ 32"
    by (simp add: MSG_MAX_def)
  have "stdout s4 = stdout s"
    using format_msg_snd(1) [of W rgb err en s] f by simp
  with send_msg_after_format [OF f assms(2) _ _ b] a
  show "stdout (send_msg W rgb err en s) =
      stdout s @ htole32 (word_of_nat (strlen (msg s4))) @ cstr (msg s4)"
    by (simp add: take_strlen)
  have "le32 (htole32 (word_of_nat (strlen (msg s4))) @ []) 0 = word_of_nat (strlen (msg s4))"
    by (rule le32_htole32)
  then show "unat (le32 (htole32 (word_of_nat (strlen (msg s4)))) 0) = strlen (msg s4)"
    using b by (simp add: unat_word_of_nat_32)
  show "length (cstr (msg s4)) = strlen (msg s4)"
    by (simp add: strlen_def)
  show "NUL \<notin> set (cstr (msg s4))"
    by (rule NUL_notin_cstr)
qed

theorem send_msg_frame_witness:
  \<open>fst (format_msg example_world (Some (''23,43,67'' @ [NUL, NUL, NUL, NUL])) None 0
      initial_state) = 0 \<and>
   stdout (send_msg example_world (Some (''23,43,67'' @ [NUL, NUL, NUL, NUL])) None 0
      initial_state) = [CHR 0x1F, NUL, NUL, NUL] @ ''{"rgb":[23,43,67],"error":null}''\<close>
proof -
  let ?rgb = "Some (''23,43,67'' @ [NUL, NUL, NUL, NUL])"
  define s4 where "s4 = snd (format_msg example_world ?rgb None 0 initial_state)"
  have T: \<open>msg_text ?rgb None (esc_err_of None initial_state)
      (esc_syserr_of example_world None 0 initial_state) = ''{"rgb":[23,43,67],"error":null}''\<close>
    by (simp add: msg_text_def cstr_def)
  have fits: "length (msg_text ?rgb None (esc_err_of None initial_state)
      (esc_syserr_of example_world None 0 initial_state)) < MSG_MAX"
    unfolding T by (simp add: MSG_MAX_def)
  have f: "format_msg example_world ?rgb None 0 initial_state = (0, s4)"
    unfolding s4_def using format_msg_fits [OF fits] by (metis snd_conv)
  have c: \<open>cstr (msg s4) = ''{"rgb":[23,43,67],"error":null}''\<close>
    using format_msg_zero(1) [OF f] T by simp
  have r: "stdout_replies example_world (sends initial_state) = ((4, 0), (MSG_MAX, 0), None)"
    by (simp add: example_world_def)
  have h: "(0::int) = 0 \<and> (4::nat) \<le> fst (4::nat, 0::int) \<and> strlen (msg s4) \<le> fst (MSG_MAX, 0::int)"
    by (simp add: strlen_def c MSG_MAX_def)
  have "htole32 (word_of_nat (strlen (msg s4))) = [CHR 0x1F, NUL, NUL, NUL]"
    by (simp add: strlen_def c htole32_def char_of_eq_iff)
  with send_msg_frame [OF f r] h c f show ?thesis
    by (simp add: initial_state_def)
qed

section \<open>The messages of a run\<close>

lemma escaped_plain: "plain s \<Longrightarrow> escaped s = s"
  by (induction s) (simp_all add: plain_def escaped_def)

lemma escaped_append: "escaped (a @ b) = escaped a @ escaped b"
  by (simp add: escaped_def)

lemma plain_take: "plain s \<Longrightarrow> plain (take k s)"
  unfolding plain_def list_all_iff by (auto dest: in_set_takeD)

lemma plain_append: "plain (a @ b) = (plain a \<and> plain b)"
  by (simp add: plain_def)

lemma plain_no_NUL: "plain s \<Longrightarrow> NUL \<notin> set s"
  using NUL_notin_escaped [of s] by (simp add: escaped_plain)

lemma plain_too_long: "plain ''error too long''"
  by (simp add: plain_def json_escape_switch_def uchar_less)

lemma cstr_update_after:
  assumes "NUL \<notin> set a" and "length a \<le> i"
  shows "cstr ((a @ NUL # r)[i := NUL]) = a"
proof -
  have "(a @ NUL # r)[i := NUL] = a @ (NUL # r)[i - length a := NUL]"
    using assms(2) by (simp add: list_update_append)
  also have "(NUL # r)[i - length a := NUL] = NUL # tl ((NUL # r)[i - length a := NUL])"
    by (cases "i - length a") simp_all
  finally show ?thesis
    using assms(1) by (simp add: cstr_append_NUL)
qed

lemma fallback_cstr:
  assumes "NUL \<notin> set T" and "length d \<noteq> 0"
  shows "cstr ((snd (vsnprintf d (length d) T))[length d - 1 := NUL]) = take (length d - 1) T"
proof -
  let ?a = "take (length d - 1) T"
  have "NUL \<notin> set ?a"
    using assms(1) by (auto dest: in_set_takeD)
  moreover have "length ?a \<le> length d - 1" by simp
  ultimately have "cstr ((?a @ NUL # drop (min (length T) (length d - 1) + 1) d)
        [length d - 1 := NUL]) = ?a"
    by (rule cstr_update_after)
  then show ?thesis
    using assms(2) by (simp add: vsnprintf_def)
qed

lemma escape_or_fallback_cases:
  "cstr (escape_or_fallback src dst) =
     (if escape_ok (cstr src) (length dst) then escaped (cstr src)
      else take (length dst - 1) ''error too long'')"
proof (cases "escape_ok (cstr src) (length dst)")
  case True
  have "0 \<le> fst (json_escape (cstr src) dst)"
    using True by (simp add: json_escape_nonneg_iff)
  then have "escape_or_fallback src dst = snd (json_escape (cstr src) dst)"
    by (simp add: escape_or_fallback_def case_prod_beta)
  with cstr_json_escape [OF True] True show ?thesis by simp
next
  case False
  define T where "T = ''error too long''"
  define d where "d = snd (json_escape (cstr src) dst)"
  have l: "length d = length dst"
    by (simp add: d_def length_json_escape)
  have neg: "fst (json_escape (cstr src) dst) < 0"
    using json_escape_fail [OF False] by simp
  have e: "escape_or_fallback src dst = (snd (vsnprintf d (length d) T))[length d - 1 := NUL]"
    using neg by (simp add: escape_or_fallback_def case_prod_beta d_def T_def)
  have n: "NUL \<notin> set T"
    unfolding T_def by (rule plain_no_NUL [OF plain_too_long])
  have "cstr (escape_or_fallback src dst) = take (length dst - 1) T"
  proof (cases "length dst = 0")
    case True
    with l have "d = []" by simp
    then show ?thesis
      unfolding e by (simp add: vsnprintf_def cstr_def True)
  next
    case nz: False
    with l have "length d \<noteq> 0" by simp
    from fallback_cstr [OF n this] show ?thesis
      unfolding e l .
  qed
  with False show ?thesis
    by (simp only: T_def if_False)
qed

lemma escape_or_fallback_escaped: "\<exists>x. cstr (escape_or_fallback src dst) = escaped x"
proof (cases "escape_ok (cstr src) (length dst)")
  case True
  then have "cstr (escape_or_fallback src dst) = escaped (cstr src)"
    by (simp only: escape_or_fallback_cases if_True)
  then show ?thesis ..
next
  case False
  define T where "T = ''error too long''"
  have "plain T" unfolding T_def by (rule plain_too_long)
  then have "escaped (take (length dst - 1) T) = take (length dst - 1) T"
    by (intro escaped_plain plain_take)
  moreover have "cstr (escape_or_fallback src dst) = take (length dst - 1) T"
    using False by (simp only: escape_or_fallback_cases if_False T_def)
  ultimately have "cstr (escape_or_fallback src dst) = escaped (take (length dst - 1) T)"
    by simp
  then show ?thesis ..
qed

lemma cstr_update_0: "cstr (b[0 := NUL]) = []"
  by (cases b) (simp_all add: cstr_def)

lemma esc_err_of_escaped: "\<exists>x. cstr (esc_err_of err s) = escaped x"
proof (cases err)
  case None
  have "cstr (esc_err_of None s) = escaped []"
    by (simp add: esc_err_of_def cstr_update_0 escaped_def)
  with None show ?thesis by blast
next
  case (Some e)
  then show ?thesis
    using escape_or_fallback_escaped by (simp add: esc_err_of_def)
qed

lemma esc_syserr_of_escaped: "\<exists>x. cstr (esc_syserr_of W err en s) = escaped x"
proof (cases err)
  case None
  have "cstr (esc_syserr_of W None en s) = escaped []"
    by (simp add: esc_syserr_of_def cstr_update_0 escaped_def)
  with None show ?thesis by blast
next
  case (Some e)
  then show ?thesis
    using escape_or_fallback_escaped by (simp add: esc_syserr_of_def)
qed

lemma strip_prefix_append: "strip_prefix p (p @ r) = Some r"
  by (simp add: strip_prefix_def)

lemma strip_suffix_append: "strip_suffix q (t @ q) = Some t"
  by (simp add: strip_suffix_def)

lemma between_append: "between p q (p @ t @ q) = Some t"
  by (simp add: between_def strip_prefix_append strip_suffix_append)

lemma rgb_of_rgb: \<open>rgb_of (''{"rgb":['' @ t @ ''],"error":null}'') = Some t\<close>
  unfolding rgb_of_def by (rule between_append)

lemma error_of_error: \<open>error_of (''{"rgb":null,"error":"'' @ e @ ''"}'') = Some e\<close>
  unfolding error_of_def by (rule between_append)

lemma rgb_of_error: \<open>rgb_of (''{"rgb":null,"error":"'' @ e) = None\<close>
  by (simp add: rgb_of_def between_def strip_prefix_def)

lemma msg_text_rgb:
  \<open>msg_text (Some r) None e1 e2 = ''{"rgb":['' @ cstr r @ ''],"error":null}''\<close>
  by (simp add: msg_text_def)

lemma msg_text_error:
  \<open>msg_text None (Some e) e1 e2 =
     ''{"rgb":null,"error":"'' @ (cstr e1 @ '': '' @ cstr e2) @ ''"}''\<close>
  by (simp add: msg_text_def)

lemma emitted_rgb:
  "list_all digit_or_comma (cstr r) \<Longrightarrow> length (cstr r) \<le> 11 \<Longrightarrow>
     emitted_body (msg_text (Some r) None e1 e2)"
  unfolding msg_text_rgb emitted_body_def rgb_of_rgb by simp

lemma claimed_rgb:
  "three_numbers (cstr r) \<Longrightarrow> claimed_body (msg_text (Some r) None e1 e2)"
  unfolding msg_text_rgb claimed_body_def rgb_of_rgb by simp

lemma plain_colon: "plain '': ''"
  by (simp add: plain_def json_escape_switch_def uchar_less)

lemma error_text_safe:
  assumes "cstr e1 = escaped x1" and "cstr e2 = escaped x2"
  shows "json_unescape (cstr e1 @ '': '' @ cstr e2) \<noteq> None"
proof -
  have "cstr e1 @ '': '' @ cstr e2 = escaped (x1 @ '': '' @ x2)"
    unfolding escaped_append assms escaped_plain [OF plain_colon] ..
  then show ?thesis
    by (simp only: unescape_escaped) simp
qed

lemma emitted_error:
  assumes "cstr e1 = escaped x1" and "cstr e2 = escaped x2"
  shows "emitted_body (msg_text None (Some e) e1 e2)"
    and "claimed_body (msg_text None (Some e) e1 e2)"
proof -
  have r: "rgb_of (msg_text None (Some e) e1 e2) = None"
    unfolding msg_text_error by (simp only: append_assoc rgb_of_error)
  have er: "error_of (msg_text None (Some e) e1 e2) = Some (cstr e1 @ '': '' @ cstr e2)"
    unfolding msg_text_error by (rule error_of_error)
  from error_text_safe [OF assms] show "emitted_body (msg_text None (Some e) e1 e2)"
    by (simp add: emitted_body_def r er)
  from error_text_safe [OF assms] show "claimed_body (msg_text None (Some e) e1 e2)"
    by (simp add: claimed_body_def r er)
qed

lemma le32_append: "4 \<le> length a \<Longrightarrow> le32 (a @ b) 0 = le32 a 0"
  by (auto simp: le32_def nth_append)

lemma unframe_Nil: "unframe [] = Some []"
  by (subst unframe.simps) simp

lemma unframe_frame:
  assumes "length b < 2 ^ 32"
  shows "unframe (frame b) = Some [b]"
proof -
  have l: "le32 (frame b) 0 = word_of_nat (length b)"
    unfolding frame_def by (rule le32_htole32)
  have u: "unat (word_of_nat (length b) :: 32 word) = length b"
    using assms by (rule unat_word_of_nat_32)
  have d: "drop 4 (frame b) = b"
    by (simp add: frame_def length_htole32)
  have n: "frame b \<noteq> []" "\<not> length (frame b) < 4"
    by (auto simp: frame_def htole32_def)
  show ?thesis
    by (subst unframe.simps) (simp add: l u d n unframe_Nil)
qed

lemma unframe_append:
  assumes "length b < 2 ^ 32"
  shows "unframe out = Some bodies \<Longrightarrow> unframe (out @ frame b) = Some (bodies @ [b])"
proof (induction out arbitrary: bodies rule: unframe.induct)
  case (1 bs)
  show ?case
  proof (cases "bs = []")
    case True
    with "1.prems" have "bodies = []"
      by (simp add: unframe_Nil)
    with True show ?thesis
      by (simp add: unframe_frame [OF assms])
  next
    case False
    define n where "n = unat (le32 bs 0)"
    from "1.prems" False have l4: "\<not> length bs < 4"
      by (subst (asm) unframe.simps) (auto split: if_splits)
    from "1.prems" False l4 have ln: "\<not> length (drop 4 bs) < n"
      unfolding n_def by (subst (asm) unframe.simps) (auto split: if_splits)
    from "1.prems" False l4 ln obtain rest where
      rest: "unframe (drop n (drop 4 bs)) = Some rest" "bodies = take n (drop 4 bs) # rest"
      unfolding n_def by (subst (asm) unframe.simps) (auto split: if_splits)
    have ih: "unframe (drop n (drop 4 bs) @ frame b) = Some (rest @ [b])"
      using "1.IH" [OF False l4 ln [unfolded n_def] rest(1) [unfolded n_def]]
      by (simp add: n_def)
    have le: "le32 (bs @ frame b) 0 = le32 bs 0"
      using l4 by (intro le32_append) simp
    have d4: "drop 4 (bs @ frame b) = drop 4 bs @ frame b"
      using l4 by simp
    have tk: "take n (drop 4 bs @ frame b) = take n (drop 4 bs)"
      using ln by simp
    have dr: "drop n (drop 4 bs @ frame b) = drop n (drop 4 bs) @ frame b"
      using ln by simp
    have "unframe (bs @ frame b) = Some ((take n (drop 4 bs) # rest) @ [b])"
      using False l4 ln ih
      by (subst unframe.simps) (simp add: le d4 n_def [symmetric] tk dr)
    with rest(2) show ?thesis by simp
  qed
qed

lemma stream_step:
  assumes "stream_ok W out" and "length b < 2 ^ 32" and "emitted_body b"
    and "expected_world W \<longrightarrow> claimed_body b"
  shows "stream_ok W (out @ frame b)"
proof -
  from assms(1) obtain bodies where b: "unframe out = Some bodies" "list_all emitted_body bodies"
    "expected_world W \<longrightarrow> list_all claimed_body bodies"
    unfolding stream_ok_def by blast
  have "unframe (out @ frame b) = Some (bodies @ [b])"
    using assms(2) b(1) by (rule unframe_append)
  moreover have "list_all emitted_body (bodies @ [b])"
    using b(2) assms(3) by simp
  moreover have "expected_world W \<longrightarrow> list_all claimed_body (bodies @ [b])"
    using b(3) assms(4) by simp
  ultimately show ?thesis
    unfolding stream_ok_def by blast
qed

lemma send_msg_sent:
  assumes fits: "length (msg_text rgb err (esc_err_of err s) (esc_syserr_of W err en s)) < MSG_MAX"
    and acc: "accepts (stdout_replies W (sends s))"
  shows "stdout (send_msg W rgb err en s) =
     stdout s @ frame (msg_text rgb err (esc_err_of err s) (esc_syserr_of W err en s))"
proof -
  define T where "T = msg_text rgb err (esc_err_of err s) (esc_syserr_of W err en s)"
  obtain r1 r2 r3 where r: "stdout_replies W (sends s) = (r1, r2, r3)"
    by (cases "stdout_replies W (sends s)") auto
  from acc r have a: "4 \<le> fst r1" "MSG_MAX \<le> fst r2"
    by (simp_all add: accepts_def)
  define s4 where "s4 = snd (format_msg W rgb err en s)"
  have f: "format_msg W rgb err en s = (0, s4)"
    unfolding s4_def using format_msg_fits [OF fits] by (metis snd_conv)
  have c: "cstr (msg s4) = T" and l: "length T < MSG_MAX"
    using format_msg_zero(1,2) [OF f] by (simp_all add: T_def)
  have o: "stdout s4 = stdout s"
    unfolding s4_def by (rule format_msg_snd)
  have n: "strlen (msg s4) = length T"
    by (simp add: strlen_def c)
  have a2: "strlen (msg s4) \<le> fst r2"
    unfolding n using a(2) l by linarith
  have b: "strlen (msg s4) < 2 ^ 32"
    unfolding n using l by (simp add: MSG_MAX_def)
  have "stdout (send_msg W rgb err en s) =
      stdout s4 @ htole32 (word_of_nat (strlen (msg s4))) @ take (strlen (msg s4)) (msg s4)"
    using f r a(1) a2 b by (rule send_msg_after_format)
  also have "take (strlen (msg s4)) (msg s4) = T"
    by (simp only: take_strlen c)
  finally show ?thesis
    by (simp add: o n frame_def T_def)
qed

lemma send_msg_stream:
  assumes "accepting W" and "stream_ok W (stdout s)"
    and "emitted_body (msg_text rgb err (esc_err_of err s) (esc_syserr_of W err en s))"
    and "expected_world W \<longrightarrow>
           claimed_body (msg_text rgb err (esc_err_of err s) (esc_syserr_of W err en s))"
  shows "stream_ok W (stdout (send_msg W rgb err en s))"
proof (cases "length (msg_text rgb err (esc_err_of err s) (esc_syserr_of W err en s)) < MSG_MAX")
  case True
  have "accepts (stdout_replies W (sends s))"
    using assms(1) by (simp add: accepting_def)
  from send_msg_sent [OF True this] True assms(2-4) show ?thesis
    by (simp add: MSG_MAX_def stream_step)
next
  case False
  then have "fst (format_msg W rgb err en s) \<noteq> 0"
    by (rule format_msg_too_long)
  then have "stdout (send_msg W rgb err en s) = stdout s"
    by (rule send_msg_not_sent)
  with assms(2) show ?thesis by simp
qed

lemma send_error_stream:
  assumes "accepting W" and "stream_ok W (stdout s)"
  shows "stream_ok W (stdout (send_msg W None (Some e) en s))"
proof -
  obtain x1 x2 where "cstr (esc_err_of (Some e) s) = escaped x1"
    "cstr (esc_syserr_of W (Some e) en s) = escaped x2"
    using esc_err_of_escaped esc_syserr_of_escaped by blast
  from emitted_error [OF this] assms show ?thesis
    by (intro send_msg_stream) simp_all
qed

lemma send_rgb_stream:
  assumes "accepting W" and "stream_ok W (stdout s)" and "theme_ok ct"
    and "expected_world W \<longrightarrow> three_numbers (cstr ct)"
  shows "stream_ok W (stdout (send_msg W (Some ct) None 0 s))"
  using assms by (intro send_msg_stream) (simp_all add: theme_ok_def emitted_rgb claimed_rgb)

lemma three_numbers_Nil: "\<not> three_numbers []"
  by (simp add: three_numbers_def)

lemma get_chromium_theme_ok:
  assumes "theme_ok ct0" and "get_chromium_theme f l ct0 en = (result, ct, e)"
  shows "theme_ok ct" and "result = 0 \<and> expected_file f \<longrightarrow> three_numbers (cstr ct)"
proof -
  have len: "length ct0 = 12"
    using assms(1) by (simp add: theme_ok_def CHROMIUM_THEME_MAX_def)
  have "theme_ok ct \<and> (result = 0 \<and> expected_file f \<longrightarrow> three_numbers (cstr ct))"
  proof (cases f)
    case (Open_fails x)
    with assms show ?thesis
      by (auto simp: get_chromium_theme_failures expected_file_def)
  next
    case (Read_fails x)
    with assms show ?thesis
      by (auto simp: get_chromium_theme_failures expected_file_def)
  next
    case (Content bytes)
    show ?thesis
    proof (cases "bytes = []")
      case True
      with Content assms show ?thesis
        by (auto simp: get_chromium_theme_failures expected_file_def three_numbers_Nil cstr_def)
    next
      case False
      define out where
        "out = take 11 (filter digit_or_comma (cstr (fgets_bytes (STRING_MAX - 1) bytes)))"
      from get_chromium_theme_content [OF False len, of l en] assms(2) Content
      have ct: "ct = out @ NUL # drop (length out + 1) ct0" and "result = 0"
        by (simp_all add: out_def)
      have n: "NUL \<notin> set out"
        unfolding out_def by (rule filter_digit_or_comma_no_NUL)
      have c: "cstr ct = out"
        unfolding ct using n by (rule cstr_append_NUL)
      have lo: "length out \<le> 11"
        by (simp add: out_def)
      have d: "list_all digit_or_comma out"
        unfolding out_def list_all_iff by (auto dest: in_set_takeD)
      have "length ct = 12"
        using lo len by (simp add: ct)
      with c lo d have "theme_ok ct"
        by (simp add: theme_ok_def CHROMIUM_THEME_MAX_def)
      moreover have "expected_file f \<longrightarrow> three_numbers (cstr ct)"
        by (simp add: Content expected_file_def c out_def)
      ultimately show ?thesis by simp
    qed
  qed
  then show "theme_ok ct" and "result = 0 \<and> expected_file f \<longrightarrow> three_numbers (cstr ct)"
    by simp_all
qed

lemma clean_exit_ok: "stream_ok W (stdout s) \<Longrightarrow> run_ok W (clean_exit status s)"
  by (simp add: clean_exit_def)

lemma report_theme_ok:
  assumes "accepting W" and "state_ok W s"
  shows "run_ok W (report_theme W s)"
proof -
  obtain result ct e where g: "get_chromium_theme (theme_files W (opens s)) (line_garbage W)
      (chromium_theme s) (errno s) = (result, ct, e)"
    by (metis prod_cases3)
  define s1 where "s1 = s\<lparr>chromium_theme := ct, errno := e, opens := opens s + 1\<rparr>"
  have c: "call_get_chromium_theme W s = (result, s1)"
    by (simp add: call_get_chromium_theme_def g s1_def)
  have t: "theme_ok (chromium_theme s)" and o: "stream_ok W (stdout s)"
    using assms(2) by (simp_all add: state_ok_def)
  note k = get_chromium_theme_ok [OF t g]
  have o1: "stream_ok W (stdout s1)"
    using o by (simp add: s1_def)
  have c1: "chromium_theme s1 = ct"
    by (simp add: s1_def)
  show ?thesis
  proof (cases "result = 0")
    case True
    have "expected_world W \<longrightarrow> three_numbers (cstr ct)"
      using k(2) True by (simp add: expected_world_def)
    with assms(1) o1 k(1) have "stream_ok W (stdout (send_msg W (Some ct) None 0 s1))"
      by (rule send_rgb_stream)
    with k(1) True show ?thesis
      by (simp add: report_theme_def c c1 state_ok_def send_msg_keeps)
  next
    case False
    have "stream_ok W (stdout (send_msg W None
        (Some ''could not read chromium.theme to string'') result s1))"
      using assms(1) o1 by (rule send_error_stream)
    with False show ?thesis
      by (simp add: report_theme_def c clean_exit_ok)
  qed
qed

lemma run_ok_cases:
  assumes "run_ok W r" and "\<And>s'. state_ok W s' \<Longrightarrow> run_ok W (k s')"
  shows "run_ok W (case r of Running s' \<Rightarrow> k s' | r' \<Rightarrow> r')"
  using assms by (cases r) simp_all

lemma state_ok_stream: "state_ok W s \<Longrightarrow> stream_ok W (stdout s)"
  by (simp add: state_ok_def)

lemma events_loop_ok:
  "accepting W \<Longrightarrow> state_ok W s \<Longrightarrow> run_ok W (events_loop W buf n off s)"
proof (induction W buf n off s rule: events_loop.induct)
  case (1 W buf n off s)
  note acc = "1.prems"(1) and ok = "1.prems"(2)
  show ?case
  proof (cases "off < n")
    case False
    then show ?thesis
      using ok by (subst events_loop.simps) simp
  next
    case lt: True
    show ?thesis
    proof (cases "length buf < off + 16")
      case True
      then show ?thesis
        using ok lt by (subst events_loop.simps) (simp add: state_ok_stream)
    next
      case hd: False
      show ?thesis
      proof (cases "ev_size buf off = 0 \<or> n < off + ev_size buf off")
        case True
        then show ?thesis
          using ok lt hd by (subst events_loop.simps) auto
      next
        case sz: False
        show ?thesis
        proof (cases "le32 buf (off + 4) AND (IN_MOVED_TO OR IN_CREATE) \<noteq> 0
            \<and> 0 < le32 buf (off + 12)")
          case False
          from "1.IH"(3) [OF lt hd sz False acc ok] lt hd sz False show ?thesis
            by (subst events_loop.simps) auto
        next
          case m: True
          show ?thesis
          proof (cases "strcmp0 (drop (off + 16) buf) THEME_DIR")
            case None
            with lt hd sz m ok show ?thesis
              by (subst events_loop.simps) (auto simp: state_ok_stream)
          next
            case (Some b)
            show ?thesis
            proof (cases b)
              case False
              then have bf: "b = False" by simp
              from "1.IH"(2) [OF lt hd sz m Some bf acc ok] lt hd sz m Some False
              show ?thesis
                by (subst events_loop.simps) auto
            next
              case True
              then have bt: "b = True" by simp
              have r: "run_ok W (report_theme W s)"
                using acc ok by (rule report_theme_ok)
              show ?thesis
              proof (cases "report_theme W s")
                case (Running x1)
                with r have "state_ok W x1" by simp
                from "1.IH"(1) [OF lt hd sz m Some bt Running acc this]
                  lt hd sz m Some True Running
                show ?thesis
                  by (subst events_loop.simps) auto
              next
                case (Exited x y)
                with r lt hd sz m Some True show ?thesis
                  by (subst events_loop.simps) auto
              next
                case (Undefined y)
                with r lt hd sz m Some True show ?thesis
                  by (subst events_loop.simps) auto
              qed
            qed
          qed
        qed
      qed
    qed
  qed
qed

lemma read_loop_ok:
  "accepting W \<Longrightarrow> state_ok W s \<Longrightarrow> run_ok W (read_loop W reads buf s)"
proof (induction reads arbitrary: buf s)
  case Nil
  then show ?case by simp
next
  case (Cons r rs)
  note acc = Cons.prems(1) and ok = Cons.prems(2)
  show ?case
  proof (cases r)
    case (Read_error e)
    have ok1: "state_ok W (s\<lparr>errno := e\<rparr>)"
      using ok by (simp add: state_ok_def)
    show ?thesis
    proof (cases "e = EINTR")
      case True
      with Cons.IH [OF acc ok1] Read_error show ?thesis by simp
    next
      case False
      have "stream_ok W (stdout (send_msg W None (Some ''could not read inotify instance'') e
          (s\<lparr>errno := e\<rparr>)))"
        using acc state_ok_stream [OF ok1] by (rule send_error_stream)
      with False Read_error show ?thesis
        by (simp add: clean_exit_ok Let_def)
    qed
  next
    case (Read_bytes bytes)
    define n where "n = length (take (length buf) bytes)"
    define buf' where "buf' = take (length buf) bytes @ drop n buf"
    have unfold: "read_loop W (Read_bytes bytes # rs) buf s =
        (if n = 0 then read_loop W rs buf' s
         else (case events_loop W buf' n 0 s of
                 Running s' \<Rightarrow> read_loop W rs buf' s' | r' \<Rightarrow> r'))"
      by (simp only: read_loop.simps Let_def n_def [symmetric] buf'_def [symmetric])
    have "run_ok W (read_loop W (Read_bytes bytes # rs) buf s)"
    proof (cases "n = 0")
      case True
      with Cons.IH [OF acc ok, of buf'] show ?thesis
        unfolding unfold by simp
    next
      case False
      have e: "run_ok W (events_loop W buf' n 0 s)"
        using acc ok by (rule events_loop_ok)
      have "run_ok W (case events_loop W buf' n 0 s of
          Running s' \<Rightarrow> read_loop W rs buf' s' | r' \<Rightarrow> r')"
        using e Cons.IH [OF acc] by (rule run_ok_cases)
      with False show ?thesis
        unfolding unfold by simp
    qed
    then show ?thesis
      by (simp only: Read_bytes)
  qed
qed

lemma initial_state_ok: "state_ok W initial_state"
proof -
  have "stream_ok W []"
    unfolding stream_ok_def by (intro exI [of _ "[]"]) (simp add: unframe_Nil)
  moreover have "cstr (replicate CHROMIUM_THEME_MAX NUL) = []"
    by (simp add: cstr_def CHROMIUM_THEME_MAX_def)
  ultimately show ?thesis
    by (simp add: state_ok_def theme_ok_def initial_state_def)
qed

lemma main_ok:
  assumes "accepting W"
  shows "run_ok W (main W reads)"
proof -
  note acc = assms
  have i: "stream_ok W (stdout s)" if "stdout s = stdout initial_state" for s :: state
    using that state_ok_stream [OF initial_state_ok, of W] by simp
  have err: "run_ok W (clean_exit x (send_msg W None (Some e) en s))"
    if "stdout s = stdout initial_state" for x e en and s :: state
    using send_error_stream [OF acc i [OF that]] by (rule clean_exit_ok)
  have rest: "run_ok W (case report_theme W s of
        Running s2 \<Rightarrow> read_loop W reads (buf_garbage W) s2 | r' \<Rightarrow> r')"
    if "state_ok W s" for s :: state
    using report_theme_ok [OF acc that] read_loop_ok [OF acc] by (rule run_ok_cases)
  have s1: "state_ok W (initial_state\<lparr>notify_fd := fd\<rparr>)" for fd
    using initial_state_ok [of W] by (simp add: state_ok_def)
  show ?thesis
  proof (cases "current_path_result W \<noteq> 0")
    case True
    then show ?thesis
      by (simp add: main_def Let_def err)
  next
    case c0: False
    show ?thesis
    proof (cases "inotify_init_result W")
      case (Fails e)
      with c0 show ?thesis
        by (simp add: main_def Let_def err)
    next
      case i: (Returns fd)
      show ?thesis
      proof (cases "inotify_add_watch_result W")
        case (Fails e)
        with c0 i show ?thesis
          by (simp add: main_def Let_def err)
      next
        case w: (Returns wd)
        show ?thesis
        proof (cases "chromium_theme_path_result W \<noteq> 0")
          case True
          with c0 i w show ?thesis
            by (simp add: main_def Let_def err)
        next
          case False
          with c0 i w rest [OF s1, of fd] show ?thesis
            by (simp add: main_def Let_def)
        qed
      qed
    qed
  qed
qed

section \<open>The claims about a run\<close>

lemma send_msg_state:
  assumes f: "format_msg W rgb err en s = (0, s4)"
    and r: "stdout_replies W (sends s) = (r1, r2, r3)"
    and a1: "4 \<le> fst r1"
    and a2: "strlen (msg s4) \<le> fst r2"
    and b: "strlen (msg s4) < 2 ^ 32"
  shows "errno (send_msg W rgb err en s) = (case r3 of None \<Rightarrow> errno s4 | Some e \<Rightarrow> e)"
proof -
  define n where "n = strlen (msg s4)"
  have u: "unat (word_of_nat n :: 32 word) = n"
    using b unfolding n_def by (rule unat_word_of_nat_32)
  define s5 where "s5 = s4\<lparr>stdout := stdout s4 @ htole32 (word_of_nat n)\<rparr>"
  have w1: "fwrite (htole32 (word_of_nat n)) 4 r1 s4 = (1, s5)"
    using a1 by (simp add: fwrite_all length_htole32 s5_def)
  have "n \<le> length (msg s4)"
    unfolding n_def strlen_def cstr_def by (rule length_takeWhile_le)
  then have ln: "length (take n (msg s4)) = n"
    by simp
  define s6 where "s6 = s5\<lparr>stdout := stdout s5 @ take n (msg s5)\<rparr>"
  have m5: "msg s5 = msg s4" by (simp add: s5_def)
  have w2: "fwrite (take n (msg s5)) 1 r2 s5 = (n, s6)"
    using a2 ln by (simp add: fwrite_all m5 s6_def n_def [symmetric])
  have "send_msg W rgb err en s = (case r3 of None \<Rightarrow> s6 | Some e \<Rightarrow> s6\<lparr>errno := e\<rparr>)"
    by (simp add: send_msg_def f r n_def [symmetric] u w1 w2 [unfolded One_nat_def] Let_def)
  then show ?thesis
    by (simp add: s6_def s5_def split: option.splits)
qed

lemma send_msg_errno:
  assumes fits: "length (msg_text rgb err (esc_err_of err s) (esc_syserr_of W err en s)) < MSG_MAX"
    and r: "stdout_replies W (sends s) = (r1, r2, Some e)"
    and a: "4 \<le> fst r1" "MSG_MAX \<le> fst r2"
  shows "errno (send_msg W rgb err en s) = e"
proof -
  define T where "T = msg_text rgb err (esc_err_of err s) (esc_syserr_of W err en s)"
  define s4 where "s4 = snd (format_msg W rgb err en s)"
  have f: "format_msg W rgb err en s = (0, s4)"
    unfolding s4_def using format_msg_fits [OF fits] by (metis snd_conv)
  have c: "cstr (msg s4) = T" and l: "length T < MSG_MAX"
    using format_msg_zero(1,2) [OF f] by (simp_all add: T_def)
  have n: "strlen (msg s4) = length T"
    by (simp add: strlen_def c)
  have a2: "strlen (msg s4) \<le> fst r2"
    unfolding n using a(2) l by linarith
  have b: "strlen (msg s4) < 2 ^ 32"
    unfolding n using l by (simp add: MSG_MAX_def)
  from send_msg_state [OF f r a(1) a2 b] show ?thesis by simp
qed

lemma escape_ok_plain:
  assumes "plain src" and "length src + 6 \<le> n"
  shows "escape_ok src n"
proof (cases "src = []")
  case True
  with assms(2) show ?thesis by (simp add: escape_ok_def)
next
  case False
  have "plain (butlast src)"
    using assms(1) unfolding plain_def list_all_iff by (auto dest: in_set_butlastD)
  then have e: "escaped (butlast src) = butlast src"
    by (rule escaped_plain)
  obtain k where k: "length src = Suc k"
    using False by (cases src) simp_all
  have "length (butlast src) = k"
    by (simp add: k)
  moreover have "k + 6 < n"
    using assms(2) unfolding k by arith
  ultimately have "length (butlast src) + 6 < n"
    by (simp only:)
  then have "length (escaped (butlast src)) + 6 < n" and "n \<noteq> 0"
    unfolding e by simp_all
  with False show ?thesis
    by (simp add: escape_ok_def fits_closed)
qed

lemma escape_or_fallback_plain:
  assumes "plain src" and "length src + 6 \<le> length dst"
  shows "cstr (escape_or_fallback src dst) = src"
proof -
  have c: "cstr src = src"
    using plain_no_NUL [OF assms(1)] by (rule cstr_no_NUL)
  have "escape_ok (cstr src) (length dst)"
    unfolding c using assms by (rule escape_ok_plain)
  then show ?thesis
    by (simp add: escape_or_fallback_cases c escaped_plain [OF assms(1)])
qed

lemma msg_text_error_plain:
  assumes "plain e" and "length e + 6 \<le> MSG_MAX" and "plain (strerror W en)"
    and "length (strerror W en) + 6 \<le> MSG_MAX" and "length (esc_err s) = MSG_MAX"
    and "length (esc_syserr s) = MSG_MAX"
  shows \<open>msg_text None (Some e) (esc_err_of (Some e) s) (esc_syserr_of W (Some e) en s) =
     ''{"rgb":null,"error":"'' @ (e @ '': '' @ strerror W en) @ ''"}''\<close>
proof -
  have "cstr (esc_err_of (Some e) s) = e"
    unfolding esc_err_of_def option.case using assms(1,2,5)
    by (intro escape_or_fallback_plain) simp_all
  moreover have "cstr (esc_syserr_of W (Some e) en s) = strerror W en"
    unfolding esc_syserr_of_def option.case using assms(3,4,6)
    by (intro escape_or_fallback_plain) simp_all
  ultimately show ?thesis
    by (simp only: msg_text_error)
qed

lemma clean_exit_simps:
  "exit_status (clean_exit x s) = Some x"
  "stdout (state_of (clean_exit x s)) = stdout s"
  by (simp_all add: clean_exit_def)

lemma full_device_world_simps:
  "current_path_result full_device_world = 0"
  "inotify_init_result full_device_world = Fails 24"
  "strerror full_device_world 24 = ''Too many open files''"
  "strerror full_device_world 2 = ''No such file or directory''"
  "stdout_replies full_device_world k = ((4, 0), (MSG_MAX, 0), Some 28)"
  by (simp_all add: full_device_world_def example_world_def)

lemma initial_state_simps:
  "length (esc_err initial_state) = MSG_MAX"
  "length (esc_syserr initial_state) = MSG_MAX"
  "stdout initial_state = []"
  "errno initial_state = 0"
  "opens initial_state = 0"
  "chromium_theme initial_state = replicate CHROMIUM_THEME_MAX NUL"
  by (simp_all add: initial_state_def)

lemma plain_contexts:
  "plain ''could not init inotify''"
  "plain ''Too many open files''"
  "plain (''could not get path '' @ [SQ] @ ''~/.config/omarchy/current'' @ [SQ])"
  "plain ''No such file or directory''"
  by (simp_all add: plain_def json_escape_switch_def uchar_less)

text \<open>
  When standard output takes the whole message and \<^verbatim>\<open>fflush\<close> does not fail,
  \<^verbatim>\<open>send_msg\<close> leaves \<^verbatim>\<open>errno\<close> as it was, and a failure of \<^verbatim>\<open>inotify_init\<close> ends the
  process with the number of that failure.
\<close>

lemma send_msg_errno_kept:
  assumes r: "stdout_replies W (sends s) = (r1, r2, None)"
    and a: "4 \<le> fst r1" "MSG_MAX \<le> fst r2"
  shows "errno (send_msg W rgb err en s) = errno s"
proof (cases "fst (format_msg W rgb err en s) = 0")
  case False
  then show ?thesis
    by (simp add: send_msg_def case_prod_beta could_not_send_def format_msg_snd)
next
  case True
  define s4 where "s4 = snd (format_msg W rgb err en s)"
  have f: "format_msg W rgb err en s = (0, s4)"
    unfolding s4_def using True by (metis prod.collapse)
  have l: "length (cstr (msg s4)) < MSG_MAX"
    using format_msg_zero(1,2) [OF f] by simp
  have a2: "strlen (msg s4) \<le> fst r2"
    unfolding strlen_def using a(2) l by linarith
  have b: "strlen (msg s4) < 2 ^ 32"
    unfolding strlen_def using l by (simp add: MSG_MAX_def)
  from send_msg_state [OF f r a(1) a2 b] show ?thesis
    by (simp add: s4_def format_msg_snd)
qed

lemma main_exit_status_inotify_init:
  assumes "current_path_result W = 0" and "inotify_init_result W = Fails e"
    and "stdout_replies W 0 = (r1, r2, None)" and "4 \<le> fst r1" and "MSG_MAX \<le> fst r2"
  shows "exit_status (main W reads) = Some e"
proof -
  define s1 where "s1 = initial_state\<lparr>notify_fd := - 1, errno := e\<rparr>"
  define s2 where "s2 = send_msg W None (Some ''could not init inotify'') e s1"
  have m: "main W reads = clean_exit (errno s2) s2"
    using assms(1,2) by (simp add: main_def Let_def s1_def s2_def)
  have "sends s1 = 0"
    by (simp add: s1_def initial_state_def)
  with assms(3) have "stdout_replies W (sends s1) = (r1, r2, None)"
    by simp
  from send_msg_errno_kept [OF this assms(4,5)] have "errno s2 = e"
    by (simp add: s2_def s1_def)
  then show ?thesis
    by (simp add: m clean_exit_def)
qed

text \<open>
  C9. \<^verbatim>\<open>inotify_init\<close> fails with \<^verbatim>\<open>EMFILE\<close> (24) and standard output is a file on a full
  device: the message for error 24 is written, \<^verbatim>\<open>fflush\<close> fails and sets \<^verbatim>\<open>errno\<close> to
  \<^verbatim>\<open>ENOSPC\<close> (28), and \<^verbatim>\<open>clean_exit(errno)\<close> then exits with 28, not with 24. On the path
  of \<^verbatim>\<open>get_current_path\<close>, which keeps the error in \<open>result\<close>, the same world exits with the
  error's own number.
\<close>

theorem main_exit_status_after_failed_flush:
  \<open>inotify_init_result full_device_world = Fails 24 \<and>
   stdout (state_of (main full_device_world [])) =
     frame ''{"rgb":null,"error":"could not init inotify: Too many open files"}'' \<and>
   exit_status (main full_device_world []) = Some 28 \<and>
   exit_status (main (full_device_world\<lparr>current_path_result := 2\<rparr>) []) = Some 2\<close>
proof -
  define W where "W = full_device_world"
  define s1 where "s1 = initial_state\<lparr>notify_fd := - 1, errno := 24\<rparr>"
  define s2 where "s2 = send_msg W None (Some ''could not init inotify'') 24 s1"
  note w = full_device_world_simps [folded W_def]
  have m: "main W [] = clean_exit (errno s2) s2"
    by (simp add: main_def Let_def w s1_def s2_def)
  have l: "length (esc_err s1) = MSG_MAX" "length (esc_syserr s1) = MSG_MAX"
    by (simp_all add: s1_def initial_state_simps)
  have T: \<open>msg_text None (Some ''could not init inotify'')
      (esc_err_of (Some ''could not init inotify'') s1)
      (esc_syserr_of W (Some ''could not init inotify'') 24 s1) =
      ''{"rgb":null,"error":"could not init inotify: Too many open files"}''\<close>
    using plain_contexts(1,2) l
    by (subst msg_text_error_plain) (simp_all add: w MSG_MAX_def)
  have fits: "length (msg_text None (Some ''could not init inotify'')
      (esc_err_of (Some ''could not init inotify'') s1)
      (esc_syserr_of W (Some ''could not init inotify'') 24 s1)) < MSG_MAX"
    unfolding T by (simp add: MSG_MAX_def)
  have r: "stdout_replies W (sends s1) = ((4, 0), (MSG_MAX, 0), Some 28)"
    by (rule w)
  have e: "errno s2 = 28"
    unfolding s2_def by (rule send_msg_errno [OF fits r]) simp_all
  have "accepts (stdout_replies W (sends s1))"
    unfolding r by (simp add: accepts_def)
  from send_msg_sent [OF fits this]
  have o: \<open>stdout s2 = frame ''{"rgb":null,"error":"could not init inotify: Too many open files"}''\<close>
    unfolding T by (simp add: s2_def s1_def initial_state_simps)
  have "exit_status (main (W\<lparr>current_path_result := 2\<rparr>) []) = Some 2"
    by (simp add: main_def Let_def clean_exit_simps)
  with m e o w(2) show ?thesis
    by (simp add: clean_exit_simps W_def [symmetric])
qed

lemma main_initial_message:
  assumes w: "current_path_result W = 0" "inotify_init_result W = Returns fd"
      "inotify_add_watch_result W = Returns wd" "chromium_theme_path_result W = 0"
    and f: "theme_files W 0 = Content bytes" "bytes \<noteq> []"
    and a: "accepts (stdout_replies W 0)"
  shows \<open>stdout (state_of (main W [])) =
     frame (''{"rgb":['' @ take 11 (filter digit_or_comma (cstr (fgets_bytes (STRING_MAX - 1) bytes)))
       @ ''],"error":null}'')\<close>
proof -
  define out where "out = take 11 (filter digit_or_comma (cstr (fgets_bytes (STRING_MAX - 1) bytes)))"
  define ct where "ct = out @ NUL # drop (length out + 1) (replicate CHROMIUM_THEME_MAX NUL)"
  define s1 where "s1 = initial_state\<lparr>notify_fd := fd\<rparr>"
  define s1' where "s1' = s1\<lparr>chromium_theme := ct, errno := 0, opens := opens s1 + 1\<rparr>"
  have g: "get_chromium_theme (Content bytes) (line_garbage W)
      (replicate CHROMIUM_THEME_MAX NUL) 0 = (0, ct, 0)"
    unfolding ct_def out_def
    by (rule get_chromium_theme_content [OF f(2)]) (simp add: CHROMIUM_THEME_MAX_def)
  have c: "call_get_chromium_theme W s1 = (0, s1')"
    by (simp add: call_get_chromium_theme_def s1_def initial_state_simps f(1) g s1'_def)
  have r: "report_theme W s1 = Running (send_msg W (Some ct) None 0 s1')"
    by (simp add: report_theme_def c s1'_def)
  have m: "main W [] = Running (send_msg W (Some ct) None 0 s1')"
    by (simp add: main_def Let_def w s1_def [symmetric] r)
  have n: "NUL \<notin> set out"
    unfolding out_def by (rule filter_digit_or_comma_no_NUL)
  have cs: "cstr ct = out"
    unfolding ct_def using n by (rule cstr_append_NUL)
  have T: \<open>msg_text (Some ct) None (esc_err_of None s1') (esc_syserr_of W None 0 s1') =
      ''{"rgb":['' @ out @ ''],"error":null}''\<close>
    by (simp only: msg_text_rgb cs)
  have "length out \<le> 11" by (simp add: out_def)
  then have fits: "length (msg_text (Some ct) None (esc_err_of None s1')
      (esc_syserr_of W None 0 s1')) < MSG_MAX"
    unfolding T by (simp add: MSG_MAX_def)
  have "sends s1' = 0"
    by (simp add: s1'_def s1_def initial_state_def)
  with a have "accepts (stdout_replies W (sends s1'))" by simp
  from send_msg_sent [OF fits this]
  have \<open>stdout (send_msg W (Some ct) None 0 s1') = frame (''{"rgb":['' @ out @ ''],"error":null}'')\<close>
    unfolding T by (simp add: s1'_def s1_def initial_state_simps)
  then show ?thesis
    by (simp add: m out_def)
qed

lemma example_world_simps:
  "current_path_result example_world = 0"
  "inotify_init_result example_world = Returns 3"
  "inotify_add_watch_result example_world = Returns 1"
  "chromium_theme_path_result example_world = 0"
  "theme_files example_world k = Content (''23,43,67'' @ [CHR 0x0A])"
  "accepts (stdout_replies example_world k)"
  by (simp_all add: example_world_def accepts_def)

lemma one_number_world_simps:
  "current_path_result one_number_world = 0"
  "inotify_init_result one_number_world = Returns 3"
  "inotify_add_watch_result one_number_world = Returns 1"
  "chromium_theme_path_result one_number_world = 0"
  "theme_files one_number_world k = Content (''7'' @ [CHR 0x0A])"
  "accepts (stdout_replies one_number_world k)"
  by (simp_all add: one_number_world_def example_world_def accepts_def)

text \<open>
  C1, as stated, fails: a theme file whose first line is \<open>7\<close> makes the program send a
  message whose \<open>rgb\<close> is an array of one number.
\<close>

theorem main_rgb_counterexample:
  \<open>unframe (stdout (state_of (main one_number_world []))) = Some [''{"rgb":[7],"error":null}'']
   \<and> \<not> claimed_body ''{"rgb":[7],"error":null}''\<close>
proof -
  have l: "fgets_bytes (STRING_MAX - 1) (''7'' @ [CHR 0x0A]) = ''7'' @ [CHR 0x0A]"
    by (simp add: STRING_MAX_def)
  have o: "take 11 (filter digit_or_comma (cstr (fgets_bytes (STRING_MAX - 1) (''7'' @ [CHR 0x0A]))))
      = ''7''"
    unfolding l by (simp add: cstr_def digit_or_comma_def)
  have \<open>stdout (state_of (main one_number_world [])) = frame (''{"rgb":['' @ ''7'' @ ''],"error":null}'')\<close>
    using main_initial_message [OF one_number_world_simps(1-5) _ one_number_world_simps(6)]
    unfolding o by simp
  then have \<open>unframe (stdout (state_of (main one_number_world []))) =
      Some [''{"rgb":['' @ ''7'' @ ''],"error":null}'']\<close>
    by (simp only: unframe_frame) (simp add: unframe_frame)
  moreover have \<open>\<not> claimed_body (''{"rgb":['' @ ''7'' @ ''],"error":null}'')\<close>
    unfolding claimed_body_def rgb_of_rgb by (simp add: three_numbers_def)
  ultimately show ?thesis by simp
qed

text \<open>
  C1, amended. When standard output accepts every write, what a run has written to it,
  at any point of the run and also when it has exited, is a sequence of whole framed
  messages. The body of each has one of two shapes: \<open>rgb\<close> holds, between brackets, at most
  11 digits and commas (the output of the reader of the theme file, whatever its
  grouping) and \<open>error\<close> is \<^verbatim>\<open>null\<close>; or \<open>rgb\<close> is \<^verbatim>\<open>null\<close> and \<open>error\<close> is a JSON string. When
  moreover every theme file the program opens is read and holds three numbers, \<open>rgb\<close> is
  an array of three numbers in every message that has it.
\<close>

theorem main_messages:
  "accepting W \<Longrightarrow>
     \<exists>bodies. unframe (stdout (state_of (main W reads))) = Some bodies \<and>
       list_all emitted_body bodies \<and>
       (expected_world W \<longrightarrow> list_all claimed_body bodies)"
proof -
  assume "accepting W"
  then have "run_ok W (main W reads)"
    by (rule main_ok)
  then have "stream_ok W (stdout (state_of (main W reads)))"
    by (cases "main W reads") (simp_all add: state_ok_stream)
  then show ?thesis
    by (simp only: stream_ok_def)
qed

theorem main_messages_witness:
  \<open>accepting example_world \<and> expected_world example_world \<and>
   unframe (stdout (state_of (main example_world []))) =
     Some [''{"rgb":[23,43,67],"error":null}''] \<and>
   emitted_body ''{"rgb":[23,43,67],"error":null}'' \<and>
   claimed_body ''{"rgb":[23,43,67],"error":null}''\<close>
proof -
  have a: "accepting example_world"
    by (simp add: accepting_def example_world_simps)
  have l: "fgets_bytes (STRING_MAX - 1) (''23,43,67'' @ [CHR 0x0A]) = ''23,43,67'' @ [CHR 0x0A]"
    by (simp add: STRING_MAX_def)
  have o: "take 11 (filter digit_or_comma
      (cstr (fgets_bytes (STRING_MAX - 1) (''23,43,67'' @ [CHR 0x0A])))) = ''23,43,67''"
    unfolding l by (simp add: cstr_def digit_or_comma_def)
  have t: "three_numbers ''23,43,67''"
    by (simp add: three_numbers_def json_digits_def digit_or_comma_def)
  have e: "expected_world example_world"
    unfolding expected_world_def example_world_simps expected_file_def theme_file.case o
    using t by simp
  have \<open>stdout (state_of (main example_world [])) =
      frame (''{"rgb":['' @ ''23,43,67'' @ ''],"error":null}'')\<close>
    using main_initial_message [OF example_world_simps(1-5) _ example_world_simps(6)]
    unfolding o by simp
  then have u: \<open>unframe (stdout (state_of (main example_world []))) =
      Some [''{"rgb":[23,43,67],"error":null}'']\<close>
    by (simp add: unframe_frame)
  from main_messages [OF a, of "[]"] e u
  have \<open>emitted_body ''{"rgb":[23,43,67],"error":null}'' \<and>
      claimed_body ''{"rgb":[23,43,67],"error":null}''\<close>
    by auto
  with a e u show ?thesis by simp
qed

subsection \<open>A header past the end of the buffer\<close>











end
